theory Spec2Isabelle
  imports Complex_Main
begin

section \<open>Values and errors\<close>

text \<open>
  The embedding idealises finite double-precision numbers as real numbers. The non-finite
  values that the code itself can create from finite input (the logarithm of a non-positive
  number, the square root of a negative number, the mean of an empty array) are kept as
  separate constructors, because the program returns one of them as a sentinel.
\<close>

datatype pyfloat = Fin real | NaN | PInf | NInf

text \<open>
  Exceptions are values. \<open>InvalidKey\<close>, \<open>ShapeMismatch\<close> and \<open>NoSamplesStored\<close> are the three
  \<open>ValueError\<close>s that \<open>samples.py\<close> raises itself, told apart by their message
  ("Invalid key ...", "Shape of new samples must match ...", "No samples stored!");
  \<open>ValueError\<close> is any other one (numpy's broadcasting and shape errors, a failed unpacking).
\<close>

datatype error =
    TypeError | ValueError | IndexError | KeyError | AttributeError | ZeroDivisionError
  | LinAlgError | InvalidKey | ShapeMismatch | NoSamplesStored

definition bind :: "error + 'a \<Rightarrow> ('a \<Rightarrow> error + 'b) \<Rightarrow> error + 'b" where
  "bind m f = (case m of Inl e \<Rightarrow> Inl e | Inr x \<Rightarrow> f x)"

fun fadd :: "pyfloat \<Rightarrow> pyfloat \<Rightarrow> pyfloat" where
  "fadd NaN y = NaN"
| "fadd x NaN = NaN"
| "fadd (Fin a) (Fin b) = Fin (a + b)"
| "fadd PInf NInf = NaN"
| "fadd NInf PInf = NaN"
| "fadd PInf y = PInf"
| "fadd x PInf = PInf"
| "fadd NInf y = NInf"
| "fadd x NInf = NInf"

fun fscale :: "real \<Rightarrow> pyfloat \<Rightarrow> pyfloat" where
  "fscale c (Fin a) = Fin (c * a)"
| "fscale c NaN = NaN"
| "fscale c PInf = (if 0 < c then PInf else if c < 0 then NInf else NaN)"
| "fscale c NInf = (if 0 < c then NInf else if c < 0 then PInf else NaN)"

definition fsub :: "pyfloat \<Rightarrow> pyfloat \<Rightarrow> pyfloat" where
  "fsub x y = fadd x (fscale (- 1) y)"

definition fsum :: "pyfloat list \<Rightarrow> pyfloat" where
  "fsum xs = foldr fadd xs (Fin 0)"

definition np_log :: "real \<Rightarrow> pyfloat" where
  "np_log x = (if 0 < x then Fin (ln x) else if x = 0 then NInf else NaN)"

section \<open>numpy's arrays and linear algebra, in exact arithmetic\<close>

text \<open>
  A two-dimensional array carries its number of columns, so that arrays without rows or
  without columns keep their shape; its rows are lists of that length (\<open>wf2\<close>).
\<close>

datatype arr2 = Arr2 (ncols: nat) (rows: "real list list")

definition nrows :: "arr2 \<Rightarrow> nat" where
  "nrows X = length (rows X)"

definition wf2 :: "arr2 \<Rightarrow> bool" where
  "wf2 X = (\<forall>r \<in> set (rows X). length r = ncols X)"

definition dotp :: "real list \<Rightarrow> real list \<Rightarrow> real" where
  "dotp u v = sum_list (map2 (*) u v)"

definition col :: "real list list \<Rightarrow> nat \<Rightarrow> real list" where
  "col rs j = map (\<lambda>r. r ! j) rs"

definition np_T :: "arr2 \<Rightarrow> arr2" where
  \<comment> \<open>\<open>X.T\<close>\<close>
  "np_T X = Arr2 (nrows X) (map (col (rows X)) [0..<ncols X])"

definition mul_row :: "arr2 \<Rightarrow> real list \<Rightarrow> error + arr2" where
  \<comment> \<open>\<open>X * v[None]\<close>: a \<open>(p, q)\<close> array times a \<open>(1, n)\<close> array under numpy's broadcasting.\<close>
  "mul_row X v =
     (if ncols X = length v then Inr (Arr2 (ncols X) (map (\<lambda>r. map2 (*) r v) (rows X)))
      else if length v = 1 then Inr (Arr2 (ncols X) (map (map (\<lambda>a. a * hd v)) (rows X)))
      else if ncols X = 1 then Inr (Arr2 (length v) (map (\<lambda>r. map (\<lambda>b. hd r * b) v) (rows X)))
      else Inl ValueError)"

definition dot_mm :: "arr2 \<Rightarrow> arr2 \<Rightarrow> error + arr2" where
  \<comment> \<open>\<open>X.dot(Y)\<close> for two-dimensional \<open>X\<close> and \<open>Y\<close>\<close>
  "dot_mm X Y =
     (if ncols X \<noteq> nrows Y then Inl ValueError
      else Inr (Arr2 (ncols Y)
                  (map (\<lambda>r. map (\<lambda>j. dotp r (col (rows Y) j)) [0..<ncols Y]) (rows X))))"

definition dot_mv :: "arr2 \<Rightarrow> real list \<Rightarrow> error + real list" where
  \<comment> \<open>\<open>X.dot(v)\<close> for two-dimensional \<open>X\<close> and one-dimensional \<open>v\<close>\<close>
  "dot_mv X v =
     (if ncols X \<noteq> length v then Inl ValueError
      else Inr (map (\<lambda>r. dotp r v) (rows X)))"

definition bop1 :: "(real \<Rightarrow> real \<Rightarrow> real) \<Rightarrow> real list \<Rightarrow> real list \<Rightarrow> error + real list" where
  \<comment> \<open>an elementwise binary operation on one-dimensional arrays, with broadcasting\<close>
  "bop1 f u v =
     (if length u = length v then Inr (map2 f u v)
      else if length v = 1 then Inr (map (\<lambda>a. f a (hd v)) u)
      else if length u = 1 then Inr (map (\<lambda>b. f (hd u) b) v)
      else Inl ValueError)"

subsection \<open>Elimination with row pivoting\<close>

text \<open>
  \<open>np.linalg.solve\<close> and \<open>np.linalg.slogdet\<close> both run LAPACK's LU factorisation with row
  pivoting, and give up on a pivot that is exactly zero. They are modelled by elimination
  over the reals: \<open>pick\<close> selects the first row whose leading entry is not zero and reports
  how far it was moved, \<open>reduce_row\<close> eliminates the leading unknown from another row.
  A row of \<open>gauss\<close> holds the coefficients followed by the right-hand side.
\<close>

fun pick :: "real list list \<Rightarrow> (nat \<times> real list \<times> real list list) option" where
  "pick [] = None"
| "pick ([] # rs) =
     (case pick rs of None \<Rightarrow> None | Some (k, p, rest) \<Rightarrow> Some (Suc k, p, [] # rest))"
| "pick ((a # as) # rs) =
     (if a \<noteq> 0 then Some (0, a # as, rs)
      else case pick rs of None \<Rightarrow> None
           | Some (k, p, rest) \<Rightarrow> Some (Suc k, p, (a # as) # rest))"

definition reduce_row :: "real list \<Rightarrow> real list \<Rightarrow> real list" where
  "reduce_row p r = map2 (\<lambda>a q. a - (hd r / hd p) * q) (tl r) (tl p)"

fun lu_det :: "nat \<Rightarrow> real list list \<Rightarrow> real" where
  "lu_det 0 rs = 1"
| "lu_det (Suc n) rs =
     (case pick rs of None \<Rightarrow> 0
      | Some (k, p, rest) \<Rightarrow> (- 1) ^ k * hd p * lu_det n (map (reduce_row p) rest))"

fun gauss :: "nat \<Rightarrow> real list list \<Rightarrow> real list option" where
  "gauss 0 rs = Some []"
| "gauss (Suc n) rs =
     (case pick rs of None \<Rightarrow> None
      | Some (k, p, rest) \<Rightarrow>
          (case gauss n (map (reduce_row p) rest) of None \<Rightarrow> None
           | Some xs \<Rightarrow> Some ((last p - dotp (butlast (tl p)) xs) / hd p # xs)))"

definition square :: "arr2 \<Rightarrow> bool" where
  "square M = (ncols M = nrows M)"

definition np_linalg_solve :: "arr2 \<Rightarrow> real list \<Rightarrow> error + real list" where
  "np_linalg_solve M b =
     (if \<not> square M then Inl LinAlgError
      else if length b \<noteq> nrows M then Inl ValueError
      else case gauss (nrows M) (map2 (\<lambda>r c. r @ [c]) (rows M) b) of
             None \<Rightarrow> Inl LinAlgError
           | Some x \<Rightarrow> Inr x)"

definition np_linalg_slogdet :: "arr2 \<Rightarrow> error + (real \<times> pyfloat)" where
  "np_linalg_slogdet M =
     (if \<not> square M then Inl LinAlgError
      else let d = lu_det (nrows M) (rows M)
           in Inr (sgn d, np_log \<bar>d\<bar>))"

section \<open>likelihood.py\<close>

subsection \<open>tensor\_vector\_scalar\<close>

definition tensor_vector_scalar ::
  "arr2 \<Rightarrow> real list \<Rightarrow> real list \<Rightarrow> error + (arr2 \<times> real list \<times> real)" where
  "tensor_vector_scalar A ivar y =
     bind (mul_row (np_T A) ivar) (\<lambda>ATCinv.
     bind (dot_mm ATCinv A) (\<lambda>ATCinvA.
     bind (dot_mv ATCinv y) (\<lambda>rhs.
     bind (np_linalg_solve ATCinvA rhs) (\<lambda>p.
     bind (dot_mv A p) (\<lambda>Ap.
     bind (bop1 (-) Ap y) (\<lambda>dy.
     bind (bop1 (*) (map (\<lambda>d. d ^ 2) dy) ivar) (\<lambda>terms.
     Inr (ATCinvA, p, sum_list terms))))))))"

subsection \<open>design\_matrix\<close>

text \<open>
  The observations: \<open>data._t_bmjd\<close>, \<open>data.t_offset\<close>, \<open>data.rv.value\<close> and the inverse
  variances that \<open>get_ivar\<close> reads. \<open>rv_from_elements\<close> (package \<open>celestialmechanics\<close>) and
  \<open>get_ivar\<close> (module \<open>utils\<close>) are not part of these sources: they are parameters of the
  functions that call them.
\<close>

record rvdata =
  t_bmjd :: "real list"
  t_offset :: real
  rv :: "real list"
  base_ivar :: "real list"

record polytrend =
  n_terms :: nat

record jokerparams =
  trends :: "polytrend list"

type_synonym rv_fn = "real list \<Rightarrow> real \<Rightarrow> real \<Rightarrow> real \<Rightarrow> real \<Rightarrow> real \<Rightarrow> error + real list"

type_synonym ivar_fn = "rvdata \<Rightarrow> real \<Rightarrow> real list"

definition np_vander :: "real list \<Rightarrow> nat \<Rightarrow> real list list" where
  \<comment> \<open>\<open>np.vander(t, N=n, increasing=True)\<close>\<close>
  "np_vander t n = map (\<lambda>x. map (\<lambda>k. x ^ k) [0..<n]) t"

text \<open>
  \<open>design_matrix(nonlinear_p, data, jparams)\<close> has three required positional parameters.
  The third argument is an option: \<open>None\<close> is a call that supplies only two arguments, which
  Python rejects with a \<open>TypeError\<close> before the body runs. The arguments of
  \<open>rv_from_elements\<close> are, in order, \<open>times\<close>, \<open>P\<close>, \<open>K\<close>, \<open>e\<close>, \<open>omega\<close>, \<open>phi0\<close>. The period is a
  Python float here, so that dividing by a zero period raises.
\<close>

definition design_matrix :: "rv_fn \<Rightarrow> real list \<Rightarrow> rvdata \<Rightarrow> jokerparams option \<Rightarrow> error + arr2" where
  "design_matrix rv_from_elements nonlinear_p data jparams =
     (case jparams of
        None \<Rightarrow> Inl TypeError
      | Some jp \<Rightarrow>
          (case take 4 nonlinear_p of
             [P, phi0, ecc, omega] \<Rightarrow>
               if P = 0 then Inl ZeroDivisionError
               else bind (rv_from_elements (t_bmjd data) P 1 ecc omega
                            (phi0 - 2 * pi * frac (t_offset data / P))) (\<lambda>zdot.
                    case trends jp of
                      [] \<Rightarrow> Inl IndexError
                    | tr # _ \<Rightarrow>
                        if length zdot \<noteq> length (t_bmjd data) then Inl ValueError
                        else Inr (np_T (Arr2 (Suc (n_terms tr))
                                    (map2 (#) zdot (np_vander (t_bmjd data) (n_terms tr))))))
           | _ \<Rightarrow> Inl ValueError))"

subsection \<open>marginal\_ln\_likelihood\<close>

text \<open>
  The result is either a bare Python float or a one-dimensional array.
\<close>

datatype npvalue = Scalar pyfloat | Array1 "pyfloat list"

text \<open>
  Lines 97 to 110: the body of \<open>marginal_ln_likelihood\<close> once the design matrix \<open>A\<close> is there.
\<close>

definition marginal_ln_likelihood_from ::
  "ivar_fn \<Rightarrow> arr2 \<Rightarrow> real list \<Rightarrow> rvdata \<Rightarrow> error + npvalue" where
  "marginal_ln_likelihood_from get_ivar A nonlinear_p data =
     (if length nonlinear_p \<le> 4 then Inl IndexError
      else let ivar = get_ivar data (nonlinear_p ! 4) in
        bind (tensor_vector_scalar A ivar (rv data)) (\<lambda>(ATCinvA, p, chi2).
        bind (np_linalg_slogdet ATCinvA) (\<lambda>(sign, logdet).
          if sign \<noteq> 1 then Inr (Scalar NaN)
          else Inr (Array1
                 [fsub (fscale (1 / 2) (fadd logdet (fsum (map (\<lambda>v. np_log (v / (2 * pi))) ivar))))
                       (Fin (1 / 2 * chi2))]))))"

text \<open>
  Line 95 calls \<open>design_matrix(nonlinear_p, data)\<close>, with two arguments.
\<close>

definition marginal_ln_likelihood :: "rv_fn \<Rightarrow> ivar_fn \<Rightarrow> real list \<Rightarrow> rvdata \<Rightarrow> error + npvalue" where
  "marginal_ln_likelihood rv_from_elements get_ivar nonlinear_p data =
     bind (design_matrix rv_from_elements nonlinear_p data None) (\<lambda>A.
     marginal_ln_likelihood_from get_ivar A nonlinear_p data)"

subsection \<open>The linear solution in the specification's words\<close>

definition entry :: "arr2 \<Rightarrow> nat \<Rightarrow> nat \<Rightarrow> real" where
  "entry X i j = rows X ! i ! j"

definition AWAt :: "arr2 \<Rightarrow> real list \<Rightarrow> arr2" where
  \<comment> \<open>\<open>A\<cdot>diag(w)\<cdot>A\<^sup>T\<close> for \<open>A\<close> with one row per linear parameter and one column per observation\<close>
  "AWAt A w = Arr2 (nrows A)
     (map (\<lambda>i. map (\<lambda>l. \<Sum>j<ncols A. entry A i j * w ! j * entry A l j) [0..<nrows A]) [0..<nrows A])"

definition AtWA :: "arr2 \<Rightarrow> real list \<Rightarrow> arr2" where
  \<comment> \<open>\<open>A\<^sup>T\<cdot>diag(w)\<cdot>A\<close> for \<open>A\<close> with one row per observation and one column per linear parameter\<close>
  "AtWA A w = Arr2 (ncols A)
     (map (\<lambda>i. map (\<lambda>l. \<Sum>j<nrows A. entry A j i * w ! j * entry A j l) [0..<ncols A]) [0..<ncols A])"

section \<open>samples.py\<close>

subsection \<open>Arrays, times and the object store\<close>

text \<open>
  A stored value is an astropy \<open>Quantity\<close>: an array with a shape (\<open>[]\<close> for a scalar) and its
  elements in row-major order. Units are not modelled. \<open>val.size\<close> is the product of the
  shape. A reference epoch is an astropy \<open>Time\<close>, taken by its barycentric MJD, or a plain
  number: the constructor's docstring admits both.
\<close>

datatype ndarr = NdArr (arr_shape: "nat list") (arr_data: "pyfloat list")

definition wf_arr :: "ndarr \<Rightarrow> bool" where
  "wf_arr a = (length (arr_data a) = prod_list (arr_shape a))"

definition arr_size :: "ndarr \<Rightarrow> nat" where
  "arr_size a = prod_list (arr_shape a)"

datatype t0val = TimeObj real | Numeric real

fun fmul :: "pyfloat \<Rightarrow> pyfloat \<Rightarrow> pyfloat" where
  "fmul NaN y = NaN"
| "fmul x NaN = NaN"
| "fmul (Fin a) y = fscale a y"
| "fmul x (Fin b) = fscale b x"
| "fmul PInf y = y"
| "fmul NInf PInf = NInf"
| "fmul NInf NInf = PInf"

fun fsqrt :: "pyfloat \<Rightarrow> pyfloat" where
  "fsqrt (Fin a) = (if 0 \<le> a then Fin (sqrt a) else NaN)"
| "fsqrt PInf = PInf"
| "fsqrt x = NaN"

definition fmean :: "pyfloat list \<Rightarrow> pyfloat" where
  "fmean xs = (if xs = [] then NaN else fscale (1 / real (length xs)) (fsum xs))"

definition np_mean :: "ndarr \<Rightarrow> ndarr" where
  \<comment> \<open>\<open>np.mean(q)\<close>: the mean of all elements, a scalar\<close>
  "np_mean a = NdArr [] [fmean (arr_data a)]"

definition np_std :: "ndarr \<Rightarrow> ndarr" where
  \<comment> \<open>\<open>np.std(q)\<close>: the root of the mean squared deviation from the mean, a scalar\<close>
  "np_std a =
     (let m = fmean (arr_data a)
      in NdArr [] [fsqrt (fmean (map (\<lambda>x. fmul (fsub x m) (fsub x m)) (arr_data a)))])"

definition np_median :: "ndarr \<Rightarrow> ndarr" where
  \<comment> \<open>\<open>np.median(q)\<close> for finite elements; the code never calls it, it is here for comparison\<close>
  "np_median a =
     (let xs = sort (map (\<lambda>x. case x of Fin r \<Rightarrow> r | _ \<Rightarrow> 0) (arr_data a)); n = length xs
      in NdArr [] [if n = 0 then NaN
                   else if odd n then Fin (xs ! (n div 2))
                   else Fin ((xs ! (n div 2 - 1) + xs ! (n div 2)) / 2)])"

text \<open>
  Indexing along the first axis. A scalar \<open>Quantity\<close> supports neither an index nor a slice
  nor \<open>len\<close>: each raises \<open>TypeError\<close>. A slice \<open>i:j\<close> has optional bounds; negative bounds
  count from the end and all bounds are clipped to the length, as Python does.
\<close>

datatype index = Key string | Idx int | Slice "int option" "int option"

definition clip :: "nat \<Rightarrow> int \<Rightarrow> nat" where
  "clip d i = (if i < 0 then nat (max (i + int d) 0) else min (nat i) d)"

definition slice_bounds :: "nat \<Rightarrow> int option \<Rightarrow> int option \<Rightarrow> nat \<times> nat" where
  \<comment> \<open>the first row and the number of rows of \<open>lo:hi\<close> on an axis of length \<open>d\<close>\<close>
  "slice_bounds d lo hi =
     (let s = (case lo of None \<Rightarrow> 0 | Some i \<Rightarrow> clip d i);
          e = (case hi of None \<Rightarrow> d | Some j \<Rightarrow> clip d j)
      in (s, e - s))"

definition np_slice :: "ndarr \<Rightarrow> int option \<Rightarrow> int option \<Rightarrow> error + ndarr" where
  "np_slice a lo hi =
     (case arr_shape a of
        [] \<Rightarrow> Inl TypeError
      | d # rest \<Rightarrow>
          (let (s, n) = slice_bounds d lo hi; m = prod_list rest
           in Inr (NdArr (n # rest) (take (n * m) (drop (s * m) (arr_data a))))))"

definition np_index :: "ndarr \<Rightarrow> int \<Rightarrow> error + ndarr" where
  "np_index a k =
     (case arr_shape a of
        [] \<Rightarrow> Inl TypeError
      | d # rest \<Rightarrow>
          (let j = (if k < 0 then k + int d else k); m = prod_list rest
           in if j < 0 \<or> int d \<le> j then Inl IndexError
              else Inr (NdArr rest (take m (drop (nat j * m) (arr_data a))))))"

definition np_getitem :: "ndarr \<Rightarrow> index \<Rightarrow> error + ndarr" where
  "np_getitem a ix =
     (case ix of
        Idx k \<Rightarrow> np_index a k
      | Slice lo hi \<Rightarrow> np_slice a lo hi
      | Key s \<Rightarrow> Inl IndexError)"

text \<open>
  Objects that are shared or mutated live in a store, at addresses: the stored arrays, the
  \<open>_cache\<close> dictionaries, and the orbit objects of \<open>twobody\<close> with their element objects.
  A \<open>KeplerOrbit\<close> keeps its elements in the attribute \<open>elements\<close>, a reference to a
  \<open>KeplerElements\<close> object, and \<open>get_orbit\<close> attaches \<open>_v0\<close> to the orbit itself.
  An address that was never allocated holds an arbitrary object; \<open>nxt\<close> is the next free one.
\<close>

type_synonym addr = nat

record elements =
  el_P :: ndarr
  el_e :: ndarr
  el_a :: ndarr
  el_omega :: ndarr
  el_M0 :: ndarr
  el_Omega :: ndarr
  el_i :: ndarr
  el_t0 :: "t0val option"

record orbit =
  elements_ref :: addr
  v0_attr :: "ndarr option"

record heap =
  arrs :: "addr \<Rightarrow> ndarr"
  dicts :: "addr \<Rightarrow> (string \<times> addr) list"
  orbs :: "addr \<Rightarrow> orbit"
  elems :: "addr \<Rightarrow> elements"
  nxt :: addr

definition alloc_arr :: "heap \<Rightarrow> ndarr \<Rightarrow> addr \<times> heap" where
  "alloc_arr h x = (nxt h, h\<lparr>arrs := (arrs h)(nxt h := x), nxt := Suc (nxt h)\<rparr>)"

definition alloc_dict :: "heap \<Rightarrow> (string \<times> addr) list \<Rightarrow> addr \<times> heap" where
  "alloc_dict h x = (nxt h, h\<lparr>dicts := (dicts h)(nxt h := x), nxt := Suc (nxt h)\<rparr>)"

definition alloc_orbit :: "heap \<Rightarrow> orbit \<Rightarrow> addr \<times> heap" where
  "alloc_orbit h x = (nxt h, h\<lparr>orbs := (orbs h)(nxt h := x), nxt := Suc (nxt h)\<rparr>)"

definition alloc_elements :: "heap \<Rightarrow> elements \<Rightarrow> addr \<times> heap" where
  "alloc_elements h x = (nxt h, h\<lparr>elems := (elems h)(nxt h := x), nxt := Suc (nxt h)\<rparr>)"

subsection \<open>JokerSamples\<close>

text \<open>
  The container is an \<open>OrderedDict\<close> from keys to stored arrays, with the attributes \<open>t0\<close>,
  \<open>_size\<close>, \<open>_shape\<close> and \<open>_cache\<close>. \<open>_cache\<close> is \<open>None\<close> while \<open>__init__\<close> has not yet
  created it.
\<close>

record jsamples =
  items :: "(string \<times> addr) list"
  t0 :: "t0val option"
  priv_size :: "nat option"
  priv_shape :: "nat list option"
  priv_cache :: "addr option"

definition valid_keys :: "string list" where
  "valid_keys = [''P'', ''M0'', ''e'', ''omega'', ''jitter'', ''K'', ''v0'']"

fun od_set :: "(string \<times> addr) list \<Rightarrow> string \<Rightarrow> addr \<Rightarrow> (string \<times> addr) list" where
  \<comment> \<open>\<open>OrderedDict.__setitem__\<close>: a key that is present keeps its place\<close>
  "od_set [] k a = [(k, a)]"
| "od_set ((k', a') # kvs) k a = (if k' = k then (k, a) # kvs else (k', a') # od_set kvs k a)"

definition validate_key :: "string \<Rightarrow> error + unit" where
  "validate_key key = (if key \<notin> set valid_keys then Inl InvalidKey else Inr ())"

text \<open>
  \<open>u.Quantity(val)\<close> copies its argument into a new array object. The message of the shape
  error is formatted with \<open>len(val)\<close>, which a scalar \<open>val\<close> does not have.
\<close>

definition validate_val :: "jsamples \<Rightarrow> ndarr \<Rightarrow> heap \<Rightarrow> error + (addr \<times> heap)" where
  "validate_val self val h =
     (let (a, h') = alloc_arr h val
      in case priv_shape self of
           None \<Rightarrow> Inr (a, h')
         | Some shp \<Rightarrow>
             if arr_shape val \<noteq> shp
             then (if arr_shape val = [] then Inl TypeError else Inl ShapeMismatch)
             else Inr (a, h'))"

definition setitem :: "jsamples \<Rightarrow> string \<Rightarrow> ndarr \<Rightarrow> heap \<Rightarrow> error + (jsamples \<times> heap)" where
  "setitem self key val h =
     bind (validate_key key) (\<lambda>_.
     bind (validate_val self val h) (\<lambda>(a, h').
       let self' = (if priv_shape self = None
                    then self\<lparr>priv_size := Some (arr_size val), priv_shape := Some (arr_shape val)\<rparr>
                    else self)
       in Inr (self'\<lparr>items := od_set (items self') key a\<rparr>, h')))"

fun set_all :: "jsamples \<Rightarrow> (string \<times> ndarr) list \<Rightarrow> heap \<Rightarrow> error + (jsamples \<times> heap)" where
  \<comment> \<open>\<open>for key, val in kwargs.items(): self[key] = val\<close>\<close>
  "set_all self [] h = Inr (self, h)"
| "set_all self ((key, val) # kvs) h =
     bind (setitem self key val h) (\<lambda>(self', h'). set_all self' kvs h')"

definition init :: "t0val option \<Rightarrow> (string \<times> ndarr) list \<Rightarrow> heap \<Rightarrow> error + (jsamples \<times> heap)" where
  \<comment> \<open>\<open>JokerSamples(t0=t0, **kwargs)\<close>\<close>
  "init t kwargs h =
     bind (set_all \<lparr>items = [], t0 = t, priv_size = None, priv_shape = None, priv_cache = None\<rparr>
             kwargs h) (\<lambda>(self, h').
       let (c, h'') = alloc_dict h' [] in Inr (self\<lparr>priv_cache := Some c\<rparr>, h''))"

definition size_samples :: "jsamples \<Rightarrow> error + nat" where
  "size_samples self = (case priv_size self of None \<Rightarrow> Inl NoSamplesStored | Some n \<Rightarrow> Inr n)"

definition shape :: "jsamples \<Rightarrow> error + nat list" where
  "shape self = (case priv_shape self of None \<Rightarrow> Inl NoSamplesStored | Some s \<Rightarrow> Inr s)"

definition getitem_key :: "jsamples \<Rightarrow> string \<Rightarrow> error + addr" where
  \<comment> \<open>\<open>self[key]\<close> for a string: the stored array itself\<close>
  "getitem_key self key = (case map_of (items self) key of None \<Rightarrow> Inl KeyError | Some a \<Rightarrow> Inr a)"

text \<open>
  \<open>copy.copy(self)\<close>. \<open>OrderedDict\<close> has no \<open>__copy__\<close>, so the copy is rebuilt from
  \<open>__reduce__\<close>: the class is called without arguments, the instance attributes of the
  original are assigned to the new object as they are (the same \<open>_cache\<close> dictionary, the
  same \<open>t0\<close>), and every item is stored through \<open>__setitem__\<close>.
\<close>

fun copy_items :: "jsamples \<Rightarrow> (string \<times> addr) list \<Rightarrow> heap \<Rightarrow> error + (jsamples \<times> heap)" where
  "copy_items y [] h = Inr (y, h)"
| "copy_items y ((key, a) # kvs) h =
     bind (setitem y key (arrs h a) h) (\<lambda>(y', h'). copy_items y' kvs h')"

definition copy_copy :: "jsamples \<Rightarrow> heap \<Rightarrow> error + (jsamples \<times> heap)" where
  "copy_copy self h =
     bind (init None [] h) (\<lambda>(y, h').
       copy_items (y\<lparr>t0 := t0 self, priv_size := priv_size self, priv_shape := priv_shape self,
                      priv_cache := priv_cache self\<rparr>) (items self) h')"

fun slice_items ::
  "jsamples \<Rightarrow> (string \<times> addr) list \<Rightarrow> index \<Rightarrow> heap \<Rightarrow> error + (jsamples \<times> heap)" where
  \<comment> \<open>\<open>for k in self.keys(): new[k] = self[k][slc]\<close>\<close>
  "slice_items new [] slc h = Inr (new, h)"
| "slice_items new ((key, a) # kvs) slc h =
     bind (np_getitem (arrs h a) slc) (\<lambda>v.
     bind (setitem new key v h) (\<lambda>(new', h'). slice_items new' kvs slc h'))"

definition getitem_slice :: "jsamples \<Rightarrow> index \<Rightarrow> heap \<Rightarrow> error + (jsamples \<times> heap)" where
  \<comment> \<open>\<open>self[slc]\<close> for \<open>slc\<close> that is not a string\<close>
  "getitem_slice self slc h =
     bind (copy_copy self h) (\<lambda>(new, h').
       slice_items (new\<lparr>priv_size := None, priv_shape := None\<rparr>) (items self) slc h')"

definition len :: "jsamples \<Rightarrow> error + nat" where
  \<comment> \<open>\<open>__len__\<close> returns \<open>n_samples\<close>, which warns of its deprecation and returns \<open>size\<close>\<close>
  "len self = size_samples self"

subsection \<open>Persistence\<close>

text \<open>
  Modelled from the spec: \<open>quantity_to_hdf5\<close> and \<open>quantity_from_hdf5\<close> (module \<open>utils\<close>) and
  the storage they write to are not part of these sources. The store is "a hierarchical
  key/attribute store supporting named array read/write and scalar attribute read/write",
  with "one dataset per valid key name", and a read is "optionally truncated to count rows".
\<close>

record h5file =
  attrs :: "string \<Rightarrow> real option"
  datasets :: "string \<Rightarrow> ndarr option"

definition quantity_to_hdf5 :: "h5file \<Rightarrow> string \<Rightarrow> ndarr \<Rightarrow> h5file" where
  "quantity_to_hdf5 f key q = f\<lparr>datasets := (datasets f)(key \<mapsto> q)\<rparr>"

definition quantity_from_hdf5 :: "h5file \<Rightarrow> string \<Rightarrow> int option \<Rightarrow> error + ndarr" where
  "quantity_from_hdf5 f key n =
     (case datasets f key of
        None \<Rightarrow> Inl KeyError
      | Some q \<Rightarrow> (case n of None \<Rightarrow> Inr q | Some m \<Rightarrow> np_slice q None (Some m)))"

fun write_items :: "(string \<times> addr) list \<Rightarrow> heap \<Rightarrow> h5file \<Rightarrow> h5file" where
  "write_items [] h f = f"
| "write_items ((key, a) # kvs) h f = write_items kvs h (quantity_to_hdf5 f key (arrs h a))"

definition to_hdf5 :: "jsamples \<Rightarrow> heap \<Rightarrow> h5file \<Rightarrow> error + h5file" where
  \<comment> \<open>\<open>self.t0.tcb.mjd\<close> exists for a \<open>Time\<close>; a number has no attribute \<open>tcb\<close>\<close>
  "to_hdf5 self h f =
     (let f' = write_items (items self) h f
      in case t0 self of
           None \<Rightarrow> Inr f'
         | Some (TimeObj x) \<Rightarrow> Inr (f'\<lparr>attrs := (attrs f')(''t0_bmjd'' \<mapsto> x)\<rparr>)
         | Some (Numeric x) \<Rightarrow> Inl AttributeError)"

fun read_keys ::
  "jsamples \<Rightarrow> string list \<Rightarrow> h5file \<Rightarrow> int option \<Rightarrow> heap \<Rightarrow> error + (jsamples \<times> heap)" where
  "read_keys samples [] f n h = Inr (samples, h)"
| "read_keys samples (key # keys) f n h =
     (if datasets f key \<noteq> None
      then bind (quantity_from_hdf5 f key n) (\<lambda>q.
           bind (setitem samples key q h) (\<lambda>(samples', h'). read_keys samples' keys f n h'))
      else read_keys samples keys f n h)"

definition from_hdf5 ::
  "h5file \<Rightarrow> int option \<Rightarrow> (string \<times> ndarr) list \<Rightarrow> heap \<Rightarrow> error + (jsamples \<times> heap)" where
  \<comment> \<open>\<open>cls(t0=t0, **kwargs)\<close> rejects a second \<open>t0\<close> among the keyword arguments\<close>
  "from_hdf5 f n kwargs h =
     (if ''t0'' \<in> fst ` set kwargs then Inl TypeError
      else bind (init (map_option TimeObj (attrs f ''t0_bmjd'')) kwargs h) (\<lambda>(samples, h').
             read_keys samples valid_keys f n h'))"

subsection \<open>Orbits\<close>

definition scalar :: "real \<Rightarrow> ndarr" where
  "scalar x = NdArr [] [Fin x]"

definition arr_map :: "(pyfloat \<Rightarrow> pyfloat) \<Rightarrow> ndarr \<Rightarrow> ndarr" where
  "arr_map f a = NdArr (arr_shape a) (map f (arr_data a))"

definition arr_map2 :: "(pyfloat \<Rightarrow> pyfloat \<Rightarrow> pyfloat) \<Rightarrow> ndarr \<Rightarrow> ndarr \<Rightarrow> error + ndarr" where
  \<comment> \<open>an elementwise operation on two arrays of one shape, as the rows of one container are\<close>
  "arr_map2 f a b =
     (if arr_shape a = arr_shape b
      then Inr (NdArr (arr_shape a) (map2 f (arr_data a) (arr_data b)))
      else Inl ValueError)"

definition semi_major_axis :: "ndarr \<Rightarrow> ndarr \<Rightarrow> ndarr \<Rightarrow> error + ndarr" where
  \<comment> \<open>\<open>P * K / (2*np.pi) * np.sqrt(1 - e**2)\<close>\<close>
  "semi_major_axis P K e =
     bind (arr_map2 fmul P K) (\<lambda>PK.
       arr_map2 fmul (arr_map (fscale (1 / (2 * pi))) PK)
                     (arr_map (\<lambda>x. fsqrt (fsub (Fin 1) (fmul x x))) e))"

definition template_elements :: "t0val option \<Rightarrow> elements" where
  \<comment> \<open>\<open>KeplerOrbit(P=1*u.yr, e=0., omega=0*u.deg, Omega=0*u.deg, i=90*u.deg, a=1*u.au, t0=self.t0)\<close>;
      \<open>M0\<close> is left to the library, which starts it at zero\<close>
  "template_elements t =
     \<lparr>el_P = scalar 1, el_e = scalar 0, el_a = scalar 1, el_omega = scalar 0, el_M0 = scalar 0,
      el_Omega = scalar 0, el_i = scalar 90, el_t0 = t\<rparr>"

definition row :: "jsamples \<Rightarrow> string \<Rightarrow> int \<Rightarrow> heap \<Rightarrow> error + ndarr" where
  \<comment> \<open>\<open>self[key][index]\<close>\<close>
  "row self key index h = bind (getitem_key self key) (\<lambda>a. np_getitem (arrs h a) (Idx index))"

definition ensure_template :: "jsamples \<Rightarrow> addr \<Rightarrow> heap \<Rightarrow> heap" where
  \<comment> \<open>\<open>if 'orbit' not in self._cache: self._cache['orbit'] = KeplerOrbit(...)\<close>\<close>
  "ensure_template self c h =
     (if ''orbit'' \<in> fst ` set (dicts h c) then h
      else let (ea, h1) = alloc_elements h (template_elements (t0 self));
               (oa, h2) = alloc_orbit h1 \<lparr>elements_ref = ea, v0_attr = None\<rparr>
           in h2\<lparr>dicts := (dicts h2)(c := od_set (dicts h2 c) ''orbit'' oa)\<rparr>)"

text \<open>
  Modelled from the spec: \<open>KeplerOrbit\<close> and \<open>KeplerElements\<close> (package \<open>twobody\<close>) are
  not part of these sources. The orbit object is "copyable", and "each call produces an
  independent copy; the cached template is shared internally but never exposed mutably":
  \<open>copy.copy\<close> of the template is a new orbit object with an element object of its own,
  which starts with the element values of the template. The assignments
  \<open>orbit.elements._P = P\<close> and the like write to the element object of the copy.
\<close>

definition copy_orbit :: "heap \<Rightarrow> addr \<Rightarrow> addr \<times> heap" where
  "copy_orbit h src =
     (let (ea, h1) = alloc_elements h (elems h (elements_ref (orbs h src)));
          (oa, h2) = alloc_orbit h1 ((orbs h1 src)\<lparr>elements_ref := ea\<rparr>)
      in (oa, h2))"

definition get_orbit :: "jsamples \<Rightarrow> int \<Rightarrow> heap \<Rightarrow> error + (addr \<times> heap)" where
  "get_orbit self index h =
     (case priv_cache self of
        None \<Rightarrow> Inl AttributeError
      | Some c \<Rightarrow>
          (let h1 = ensure_template self c h
           in case map_of (dicts h1 c) ''orbit'' of
                None \<Rightarrow> Inl KeyError
              | Some tmpl \<Rightarrow>
                  (let (orb, h2) = copy_orbit h1 tmpl; el = elements_ref (orbs h2 orb)
                   in bind (row self ''P'' index h2) (\<lambda>P.
                      bind (row self ''e'' index h2) (\<lambda>e.
                      bind (row self ''K'' index h2) (\<lambda>K.
                      bind (semi_major_axis P K e) (\<lambda>a_K.
                      let h3 = h2\<lparr>elems := (elems h2)
                                  (el := (elems h2 el)\<lparr>el_P := P, el_e := e, el_a := a_K\<rparr>)\<rparr>
                      in bind (row self ''omega'' index h3) (\<lambda>omega.
                         bind (row self ''M0'' index h3) (\<lambda>M0.
                         let h4 = h3\<lparr>elems := (elems h3)
                                     (el := (elems h3 el)\<lparr>el_omega := omega, el_M0 := M0\<rparr>)\<rparr>
                         in bind (row self ''v0'' index h4) (\<lambda>v0.
                            Inr (orb, h4\<lparr>orbs := (orbs h4)
                                        (orb := (orbs h4 orb)\<lparr>v0_attr := Some v0\<rparr>)\<rparr>)))))))))))"

definition orbit_elements :: "heap \<Rightarrow> addr \<Rightarrow> elements" where
  \<comment> \<open>\<open>orbit.elements\<close>, read in a store\<close>
  "orbit_elements h orb = elems h (elements_ref (orbs h orb))"

definition orbit_of_sample ::
  "heap \<Rightarrow> addr \<Rightarrow> ndarr \<Rightarrow> ndarr \<Rightarrow> ndarr \<Rightarrow> ndarr \<Rightarrow> ndarr \<Rightarrow> ndarr \<Rightarrow> bool" where
  \<comment> \<open>the fields that \<open>get_orbit\<close> writes, read from an orbit in a store\<close>
  "orbit_of_sample h orb P e a omega M0 v0 =
     (el_P (orbit_elements h orb) = P \<and> el_e (orbit_elements h orb) = e \<and>
      el_a (orbit_elements h orb) = a \<and> el_omega (orbit_elements h orb) = omega \<and>
      el_M0 (orbit_elements h orb) = M0 \<and> v0_attr (orbs h orb) = Some v0)"

definition axis_of :: "pyfloat \<Rightarrow> pyfloat \<Rightarrow> pyfloat \<Rightarrow> pyfloat" where
  \<comment> \<open>\<open>P * K / (2*np.pi) * np.sqrt(1 - e**2)\<close> on single numbers\<close>
  "axis_of p q e = fmul (fscale (1 / (2 * pi)) (fmul p q)) (fsqrt (fsub (Fin 1) (fmul e e)))"

text \<open>
  The generator \<open>orbits\<close>, run to its end: the orbits it yields, in the order of the yields,
  and the store at the end.
\<close>

fun orbits_loop :: "jsamples \<Rightarrow> nat list \<Rightarrow> heap \<Rightarrow> error + (addr list \<times> heap)" where
  "orbits_loop self [] h = Inr ([], h)"
| "orbits_loop self (i # is) h =
     bind (get_orbit self (int i) h) (\<lambda>(orb, h').
     bind (orbits_loop self is h') (\<lambda>(rest, h''). Inr (orb # rest, h'')))"

definition orbits :: "jsamples \<Rightarrow> heap \<Rightarrow> error + (addr list \<times> heap)" where
  "orbits self h = bind (len self) (\<lambda>n. orbits_loop self [0..<n] h)"

text \<open>
  What a caller does who overwrites an orbit it was given: \<open>orb.elements._P = ...\<close> and the
  like replace the content of the element object that the orbit refers to, and
  \<open>orb._v0 = ...\<close> replaces the attribute of the orbit object.
\<close>

definition overwrite_orbit :: "heap \<Rightarrow> addr \<Rightarrow> elements \<Rightarrow> ndarr option \<Rightarrow> heap" where
  "overwrite_orbit h orb v w =
     h\<lparr>elems := (elems h)(elements_ref (orbs h orb) := v),
       orbs := (orbs h)(orb := (orbs h orb)\<lparr>v0_attr := w\<rparr>)\<rparr>"

subsection \<open>Reductions\<close>

definition apply_func :: "(ndarr \<Rightarrow> ndarr) \<Rightarrow> jsamples \<Rightarrow> heap \<Rightarrow> error + (jsamples \<times> heap)" where
  \<comment> \<open>\<open>_apply\<close>: \<open>cls(**kw)\<close> with \<open>kw[k] = func(self[k])\<close>\<close>
  "apply_func func self h = init None (map (\<lambda>(k, a). (k, func (arrs h a))) (items self)) h"

definition mean :: "jsamples \<Rightarrow> heap \<Rightarrow> error + (jsamples \<times> heap)" where
  "mean self h = apply_func np_mean self h"

definition median :: "jsamples \<Rightarrow> heap \<Rightarrow> error + (jsamples \<times> heap)" where
  "median self h = apply_func np_mean self h"

definition std :: "jsamples \<Rightarrow> heap \<Rightarrow> error + (jsamples \<times> heap)" where
  "std self h = apply_func np_std self h"

subsection \<open>Well-formed containers and the effect of a run of assignments\<close>

text \<open>
  What every container built by the constructor and by assignments satisfies: its keys are
  valid and occur once, \<open>_size\<close> is the number of elements of \<open>_shape\<close>, and every stored
  array is allocated and has the shape recorded in \<open>_shape\<close>. \<open>stored\<close> is the array behind \<open>self[key]\<close>, if there is one.
\<close>

definition wf_samples :: "heap \<Rightarrow> jsamples \<Rightarrow> bool" where
  "wf_samples h self =
     (distinct (map fst (items self)) \<and> fst ` set (items self) \<subseteq> set valid_keys \<and>
      priv_size self = map_option prod_list (priv_shape self) \<and>
      (\<forall>(k, a) \<in> set (items self). a < nxt h \<and> priv_shape self = Some (arr_shape (arrs h a))))"

definition stored :: "jsamples \<Rightarrow> heap \<Rightarrow> string \<Rightarrow> ndarr option" where
  "stored self h key = map_option (arrs h) (map_of (items self) key)"

text \<open>
  A template orbit that is in the cache \<open>c\<close>, and its element object, are allocated.
\<close>

definition cache_ok :: "heap \<Rightarrow> addr \<Rightarrow> bool" where
  "cache_ok h c =
     (\<forall>tmpl. map_of (dicts h c) ''orbit'' = Some tmpl \<longrightarrow>
        tmpl < nxt h \<and> elements_ref (orbs h tmpl) < nxt h)"

text \<open>
  A run of successful assignments stores its values at consecutive fresh addresses.
\<close>

fun od_set_all :: "(string \<times> addr) list \<Rightarrow> string list \<Rightarrow> addr \<Rightarrow> (string \<times> addr) list" where
  "od_set_all its [] a = its"
| "od_set_all its (k # ks) a = od_set_all (od_set its k a) ks (Suc a)"

fun arrs_all :: "(addr \<Rightarrow> ndarr) \<Rightarrow> ndarr list \<Rightarrow> addr \<Rightarrow> (addr \<Rightarrow> ndarr)" where
  "arrs_all f [] a = f"
| "arrs_all f (v # vs) a = arrs_all (f(a := v)) vs (Suc a)"

subsection \<open>An empty store\<close>

definition empty_heap :: heap where
  "empty_heap =
     \<lparr>arrs = (\<lambda>_. NdArr [] []), dicts = (\<lambda>_. []),
      orbs = (\<lambda>_. \<lparr>elements_ref = 0, v0_attr = None\<rparr>),
      elems = (\<lambda>_. template_elements None), nxt = 0\<rparr>"

subsection \<open>Example containers\<close>

text \<open>
  Containers that the constructor builds in the empty store: one with three samples of the
  period, one with two samples of the six orbital elements, and the scalar container that
  \<open>mean\<close> makes of the latter.
\<close>

definition period_samples :: "error + (jsamples \<times> heap)" where
  "period_samples = init None [(''P'', NdArr [3] [Fin 1, Fin 2, Fin 3])] empty_heap"

definition two_samples :: "error + (jsamples \<times> heap)" where
  "two_samples =
     init None
       [(''P'', NdArr [2] [Fin 1, Fin 2]), (''e'', NdArr [2] [Fin 0, Fin 0]),
        (''K'', NdArr [2] [Fin 3, Fin 4]), (''omega'', NdArr [2] [Fin 0, Fin 0]),
        (''M0'', NdArr [2] [Fin 0, Fin 0]), (''v0'', NdArr [2] [Fin 7, Fin 8])]
       empty_heap"

definition mean_samples :: "error + (jsamples \<times> heap)" where
  "mean_samples = bind two_samples (\<lambda>(c, h). mean c h)"

text \<open>
  \<open>get_orbit(0)\<close> on the two samples, and \<open>get_orbit(1)\<close> called after it.
\<close>

definition first_orbit :: "error + (addr \<times> heap)" where
  "first_orbit = bind two_samples (\<lambda>(c, h). get_orbit c 0 h)"

definition second_orbit :: "error + (addr \<times> heap)" where
  "second_orbit = bind two_samples (\<lambda>(c, h). bind (get_orbit c 0 h) (\<lambda>(orb, h'). get_orbit c 1 h'))"

text \<open>
  A container whose reference epoch is a plain number, and a storage group without content.
\<close>

definition numeric_epoch_samples :: "error + (jsamples \<times> heap)" where
  "numeric_epoch_samples =
     init (Some (Numeric 55000)) [(''P'', NdArr [3] [Fin 1, Fin 2, Fin 3])] empty_heap"

definition empty_file :: h5file where
  "empty_file = \<lparr>attrs = Map.empty, datasets = Map.empty\<rparr>"

text \<open>
  The slice \<open>[0:2]\<close> of the three periods, and the slice \<open>[:]\<close> of the scalar container.
\<close>

definition period_slice :: "error + (jsamples \<times> heap)" where
  "period_slice = bind period_samples (\<lambda>(c, h). getitem_slice c (Slice (Some 0) (Some 2)) h)"

definition mean_slice :: "error + (jsamples \<times> heap)" where
  "mean_slice = bind mean_samples (\<lambda>(c, h). getitem_slice c (Slice None None) h)"

text \<open>
  \<open>get_orbit(0)\<close> on the scalar container.
\<close>

definition mean_orbit :: "error + (addr \<times> heap)" where
  "mean_orbit = bind mean_samples (\<lambda>(c, h). get_orbit c 0 h)"

section \<open>Properties of the linear algebra and of the likelihood\<close>

lemma dotp_Nil [simp]: "dotp [] v = 0" "dotp u [] = 0"
  by (simp_all add: dotp_def)

lemma dotp_Cons [simp]: "dotp (a # u) (b # v) = a * b + dotp u v"
  by (simp add: dotp_def)

lemma dotp_sum: "length u = length v \<Longrightarrow> dotp u v = (\<Sum>k<length u. u ! k * v ! k)"
  by (simp add: dotp_def sum_list_sum_nth atLeast0LessThan)

lemma dotp_map2_sub:
  "length u = length v \<Longrightarrow> length v = length x \<Longrightarrow>
   dotp (map2 (\<lambda>a q. a - f * q) u v) x = dotp u x - f * dotp v x"
proof (induction u arbitrary: v x)
  case Nil
  then show ?case by simp
next
  case (Cons a u)
  then obtain b v' where v: "v = b # v'" by (cases v) auto
  with Cons obtain c x' where x: "x = c # x'" by (cases x) auto
  from Cons v x show ?case by (simp add: algebra_simps)
qed

lemma pick_props:
  "pick rs = Some (k, p, rest) \<Longrightarrow>
   p \<in> set rs \<and> set rest \<subseteq> set rs \<and> set rs \<subseteq> insert p (set rest) \<and> p \<noteq> [] \<and> hd p \<noteq> 0
   \<and> length rs = Suc (length rest)"
proof (induction rs arbitrary: k p rest rule: pick.induct)
  case 1
  then show ?case by simp
next
  case (2 rs)
  then show ?case by (auto split: option.splits)
next
  case (3 a as rs)
  then show ?case by (auto split: option.splits if_splits)
qed

lemma length_reduce_row:
  "length p = Suc m \<Longrightarrow> length r = Suc m \<Longrightarrow> length (reduce_row p r) = m"
  by (simp add: reduce_row_def)

lemma butlast_map2:
  "length u = length v \<Longrightarrow> butlast (map2 f u v) = map2 f (butlast u) (butlast v)"
  by (induction u v rule: list_induct2) auto

lemma last_map2:
  "length u = length v \<Longrightarrow> u \<noteq> [] \<Longrightarrow> last (map2 f u v) = f (last u) (last v)"
  by (induction u v rule: list_induct2) auto

lemma gauss_sound:
  "gauss n rs = Some xs \<Longrightarrow> \<forall>r \<in> set rs. length r = Suc n \<Longrightarrow> length rs = n \<Longrightarrow>
   length xs = n \<and> (\<forall>r \<in> set rs. dotp (butlast r) xs = last r)"
proof (induction n arbitrary: rs xs)
  case 0
  then show ?case by auto
next
  case (Suc n)
  from Suc.prems(1) obtain k p rest ys where
    pk: "pick rs = Some (k, p, rest)" and
    g: "gauss n (map (reduce_row p) rest) = Some ys" and
    xs: "xs = (last p - dotp (butlast (tl p)) ys) / hd p # ys"
    by (auto split: option.splits)
  from pick_props [OF pk] have
    pin: "p \<in> set rs" and sub: "set rest \<subseteq> set rs" and cover: "set rs \<subseteq> insert p (set rest)"
    and hp: "hd p \<noteq> 0" and lrs: "length rs = Suc (length rest)" by auto
  from pin Suc.prems(2) have lp: "length p = Suc (Suc n)" by auto
  then obtain a as where p: "p = a # as" and las: "length as = Suc n" by (cases p) auto
  have lred: "\<forall>r' \<in> set (map (reduce_row p) rest). length r' = Suc n"
    using sub Suc.prems(2) lp by (auto simp: length_reduce_row)
  have lrest: "length (map (reduce_row p) rest) = n" using lrs Suc.prems(3) by simp
  from Suc.IH [OF g lred lrest] have lys: "length ys = n"
    and red: "\<forall>r' \<in> set (map (reduce_row p) rest). dotp (butlast r') ys = last r'" by auto
  have a0: "a \<noteq> 0" using hp p by simp
  have asne: "as \<noteq> []" using las by auto
  have prow: "dotp (butlast p) xs = last p"
    using p xs a0 asne by simp
  have other: "dotp (butlast r) xs = last r" if rin: "r \<in> set rest" for r
  proof -
    from rin sub Suc.prems(2) have lr: "length r = Suc (Suc n)" by auto
    then obtain b bs where r: "r = b # bs" and lbs: "length bs = Suc n" by (cases r) auto
    have bsne: "bs \<noteq> []" using lbs by auto
    from red rin have "dotp (butlast (reduce_row p r)) ys = last (reduce_row p r)" by auto
    then have "dotp (map2 (\<lambda>x q. x - (b / a) * q) (butlast bs) (butlast as)) ys
                 = last bs - (b / a) * last as"
      using p r las lbs bsne by (simp add: reduce_row_def butlast_map2 last_map2)
    then have "dotp (butlast bs) ys - (b / a) * dotp (butlast as) ys = last bs - (b / a) * last as"
      using las lbs lys dotp_map2_sub [of "butlast bs" "butlast as" ys "b / a"] by simp
    then show ?thesis
      using r p xs a0 bsne asne by (simp add: field_simps)
  qed
  show ?case
  proof (intro conjI ballI)
    show "length xs = Suc n" using xs lys by simp
  next
    fix r assume "r \<in> set rs"
    with cover have "r = p \<or> r \<in> set rest" by auto
    then show "dotp (butlast r) xs = last r" using prow other by auto
  qed
qed

lemma pick_butlast:
  "\<forall>r \<in> set rs. 2 \<le> length r \<Longrightarrow>
   pick (map butlast rs) = map_option (\<lambda>(k, p, rest). (k, butlast p, map butlast rest)) (pick rs)"
proof (induction rs rule: pick.induct)
  case 1
  then show ?case by simp
next
  case (2 rs)
  then show ?case by simp
next
  case (3 a as rs)
  then obtain b bs where as: "as = b # bs" by (cases as) auto
  with 3 show ?case by (auto split: option.splits)
qed

lemma reduce_row_butlast:
  "length p = length r \<Longrightarrow> reduce_row (butlast p) (butlast r) = butlast (reduce_row p r)"
  by (cases p; cases r) (auto simp: reduce_row_def butlast_map2 butlast_tl split: if_splits)

lemma gauss_None_iff:
  "\<forall>r \<in> set rs. length r = Suc n \<Longrightarrow> (gauss n rs = None) = (lu_det n (map butlast rs) = 0)"
proof (induction n arbitrary: rs)
  case 0
  then show ?case by simp
next
  case (Suc n)
  then have two: "\<forall>r \<in> set rs. 2 \<le> length r" by auto
  show ?case
  proof (cases "pick rs")
    case None
    then show ?thesis using pick_butlast [OF two] by simp
  next
    case (Some t)
    then obtain k p rest where pk: "pick rs = Some (k, p, rest)" by (cases t) auto
    from pick_props [OF pk] have pin: "p \<in> set rs" and sub: "set rest \<subseteq> set rs"
      and hp: "hd p \<noteq> 0" by auto
    from pin Suc.prems have lp: "length p = Suc (Suc n)" by auto
    have hb: "hd (butlast p) = hd p" using lp by (cases p) auto
    have lred: "\<forall>r' \<in> set (map (reduce_row p) rest). length r' = Suc n"
      using sub Suc.prems lp by (auto simp: length_reduce_row)
    have eq: "map (reduce_row (butlast p)) (map butlast rest)
                = map butlast (map (reduce_row p) rest)"
      using sub Suc.prems lp by (auto simp: reduce_row_butlast)
    show ?thesis
      using pk pick_butlast [OF two] Suc.IH [OF lred] hp hb
      by (cases "gauss n (map (reduce_row p) rest)") (simp_all add: eq del: map_map)
  qed
qed

lemma length_col [simp]: "length (col rs j) = length rs"
  by (simp add: col_def)

lemma col_nth [simp]: "i < length rs \<Longrightarrow> col rs j ! i = rs ! i ! j"
  by (simp add: col_def)

lemma butlast_aug: "length rs = length b \<Longrightarrow> map butlast (map2 (\<lambda>r c. r @ [c]) rs b) = rs"
  by (induction rs b rule: list_induct2) auto

lemma solve_singular:
  assumes "square M" "wf2 M" "length b = nrows M" "lu_det (nrows M) (rows M) = 0"
  shows "np_linalg_solve M b = Inl LinAlgError"
proof -
  let ?aug = "map2 (\<lambda>r c. r @ [c]) (rows M) b"
  have len: "\<forall>r \<in> set ?aug. length r = Suc (nrows M)"
    using assms(1,2) by (auto simp: wf2_def square_def dest!: set_zip_leftD)
  have "map butlast ?aug = rows M" using assms(3) butlast_aug [of "rows M" b] by (simp only: nrows_def)
  with gauss_None_iff [OF len] assms(4) have "gauss (nrows M) ?aug = None" by simp
  then show ?thesis using assms(1,3) by (simp add: np_linalg_solve_def)
qed

lemma solve_regular:
  assumes "square M" "wf2 M" "length b = nrows M" "lu_det (nrows M) (rows M) \<noteq> 0"
  shows "\<exists>x. np_linalg_solve M b = Inr x \<and> length x = nrows M \<and>
             (\<forall>i<nrows M. dotp (rows M ! i) x = b ! i)"
proof -
  let ?aug = "map2 (\<lambda>r c. r @ [c]) (rows M) b"
  have len: "\<forall>r \<in> set ?aug. length r = Suc (nrows M)"
    using assms(1,2) by (auto simp: wf2_def square_def dest!: set_zip_leftD)
  have bl: "map butlast ?aug = rows M" using assms(3) butlast_aug [of "rows M" b] by (simp only: nrows_def)
  with gauss_None_iff [OF len] assms(4) obtain x where g: "gauss (nrows M) ?aug = Some x"
    by (cases "gauss (nrows M) ?aug") auto
  have la: "length ?aug = nrows M" using assms(3) by (simp add: nrows_def)
  from gauss_sound [OF g len la] have lx: "length x = nrows M"
    and sol: "\<forall>r \<in> set ?aug. dotp (butlast r) x = last r" by auto
  have "dotp (rows M ! i) x = b ! i" if i: "i < nrows M" for i
  proof -
    have "?aug ! i = rows M ! i @ [b ! i]" using i assms(3) by (simp add: nrows_def)
    moreover have "?aug ! i \<in> set ?aug" using i la by (metis nth_mem)
    ultimately show ?thesis using sol by (metis butlast_snoc last_snoc)
  qed
  then show ?thesis using g lx assms(1,3) by (simp add: np_linalg_solve_def)
qed

lemma dotp_weighted:
  "length u = length w \<Longrightarrow> length v = length w \<Longrightarrow>
   dotp (map2 (*) u w) v = (\<Sum>j<length w. u ! j * w ! j * v ! j)"
  using dotp_sum [of "map2 (*) u w" v] by simp

lemma wf2_row: "wf2 A \<Longrightarrow> j < nrows A \<Longrightarrow> length (rows A ! j) = ncols A"
  by (simp add: wf2_def nrows_def)

lemma precision_eq:
  assumes "length ivar = nrows A"
  shows "Arr2 (ncols A)
           (map (\<lambda>r. map (\<lambda>l. dotp r (col (rows A) l)) [0..<ncols A])
              (map (\<lambda>i. map2 (*) (col (rows A) i) ivar) [0..<ncols A])) = AtWA A ivar"
  using assms by (simp add: AtWA_def dotp_weighted nrows_def entry_def)

lemma wf2_AtWA: "wf2 (AtWA A w)" "square (AtWA A w)" "nrows (AtWA A w) = ncols A"
  by (auto simp: wf2_def AtWA_def square_def nrows_def)

lemma rows_AtWA_nth:
  "i < ncols A \<Longrightarrow> l < ncols A \<Longrightarrow>
   entry (AtWA A w) i l = (\<Sum>j<nrows A. entry A j i * w ! j * entry A j l)"
  by (simp add: AtWA_def entry_def)

lemma tvs_regular_aux:
  assumes wf: "wf2 A" and li: "length ivar = nrows A" and ly: "length y = nrows A"
    and reg: "lu_det (ncols A) (rows (AtWA A ivar)) \<noteq> 0"
  shows "\<exists>p chi2. tensor_vector_scalar A ivar y = Inr (AtWA A ivar, p, chi2) \<and>
           length p = ncols A \<and>
           (\<forall>i<ncols A. (\<Sum>l<ncols A. entry (AtWA A ivar) i l * p ! l)
                          = (\<Sum>j<nrows A. entry A j i * ivar ! j * y ! j)) \<and>
           chi2 = (\<Sum>j<nrows A. ivar ! j * ((\<Sum>l<ncols A. entry A j l * p ! l) - y ! j) ^ 2)"
proof -
  define ATCinv where
    "ATCinv = Arr2 (nrows A) (map (\<lambda>i. map2 (*) (col (rows A) i) ivar) [0..<ncols A])"
  define rhs where "rhs = map (\<lambda>i. dotp (map2 (*) (col (rows A) i) ivar) y) [0..<ncols A]"
  let ?M = "AtWA A ivar"
  have s1: "mul_row (np_T A) ivar = Inr ATCinv"
    using li by (simp add: mul_row_def np_T_def ATCinv_def o_def)
  have s2: "dot_mm ATCinv A = Inr ?M"
    using precision_eq [OF li] by (simp add: dot_mm_def ATCinv_def)
  have s3: "dot_mv ATCinv y = Inr rhs"
    using ly by (simp add: dot_mv_def ATCinv_def rhs_def o_def)
  have lrhs: "length rhs = nrows ?M" by (simp add: rhs_def wf2_AtWA)
  have reg': "lu_det (nrows ?M) (rows ?M) \<noteq> 0" using reg by (simp add: wf2_AtWA)
  from solve_regular [OF wf2_AtWA(2) wf2_AtWA(1) lrhs reg']
  obtain p where s4: "np_linalg_solve ?M rhs = Inr p" and lp: "length p = ncols A"
    and sol: "\<forall>i<ncols A. dotp (rows ?M ! i) p = rhs ! i"
    by (auto simp: wf2_AtWA)
  define Ap where "Ap = map (\<lambda>r. dotp r p) (rows A)"
  have s5: "dot_mv A p = Inr Ap" using lp by (simp add: dot_mv_def Ap_def)
  have lAp: "length Ap = nrows A" by (simp add: Ap_def nrows_def)
  have s6: "bop1 (-) Ap y = Inr (map2 (-) Ap y)" using lAp ly by (simp add: bop1_def)
  have s7: "bop1 (*) (map (\<lambda>d. d ^ 2) (map2 (-) Ap y)) ivar
              = Inr (map2 (*) (map (\<lambda>d. d ^ 2) (map2 (-) Ap y)) ivar)"
    using lAp ly li by (simp add: bop1_def)
  have res: "tensor_vector_scalar A ivar y
               = Inr (?M, p, sum_list (map2 (*) (map (\<lambda>d. d ^ 2) (map2 (-) Ap y)) ivar))"
    by (simp only: tensor_vector_scalar_def bind_def s1 s2 s3 s4 s5 s6 s7 sum.case)
  have normal: "(\<Sum>l<ncols A. entry ?M i l * p ! l) = (\<Sum>j<nrows A. entry A j i * ivar ! j * y ! j)"
    if i: "i < ncols A" for i
  proof -
    have lrow: "length (rows ?M ! i) = length p" using i lp by (simp add: AtWA_def)
    have "(\<Sum>l<ncols A. entry ?M i l * p ! l) = dotp (rows ?M ! i) p"
      using dotp_sum [OF lrow] lp lrow by (simp add: entry_def)
    also have "\<dots> = rhs ! i" using sol i by simp
    also have "\<dots> = (\<Sum>j<nrows A. entry A j i * ivar ! j * y ! j)"
      using i li ly by (simp add: rhs_def dotp_weighted nrows_def entry_def)
    finally show ?thesis .
  qed
  have Apj: "Ap ! j = (\<Sum>l<ncols A. entry A j l * p ! l)" if j: "j < nrows A" for j
  proof -
    have lr: "length (rows A ! j) = length p" using wf2_row [OF wf j] lp by simp
    from dotp_sum [OF lr] show ?thesis using j lp lr by (simp add: Ap_def nrows_def entry_def)
  qed
  have chi: "sum_list (map2 (*) (map (\<lambda>d. d ^ 2) (map2 (-) Ap y)) ivar)
               = (\<Sum>j<nrows A. ivar ! j * ((\<Sum>l<ncols A. entry A j l * p ! l) - y ! j) ^ 2)"
    using lAp ly li Apj
    by (simp add: sum_list_sum_nth atLeast0LessThan mult.commute)
  show ?thesis using res lp normal chi by auto
qed

lemma tvs_singular_aux:
  assumes li: "length ivar = nrows A" and ly: "length y = nrows A"
    and sing: "lu_det (ncols A) (rows (AtWA A ivar)) = 0"
  shows "tensor_vector_scalar A ivar y = Inl LinAlgError"
proof -
  define ATCinv where
    "ATCinv = Arr2 (nrows A) (map (\<lambda>i. map2 (*) (col (rows A) i) ivar) [0..<ncols A])"
  define rhs where "rhs = map (\<lambda>i. dotp (map2 (*) (col (rows A) i) ivar) y) [0..<ncols A]"
  let ?M = "AtWA A ivar"
  have s1: "mul_row (np_T A) ivar = Inr ATCinv"
    using li by (simp add: mul_row_def np_T_def ATCinv_def o_def)
  have s2: "dot_mm ATCinv A = Inr ?M"
    using precision_eq [OF li] by (simp add: dot_mm_def ATCinv_def)
  have s3: "dot_mv ATCinv y = Inr rhs"
    using ly by (simp add: dot_mv_def ATCinv_def rhs_def o_def)
  have lrhs: "length rhs = nrows ?M" by (simp add: rhs_def wf2_AtWA)
  have sing': "lu_det (nrows ?M) (rows ?M) = 0" using sing by (simp add: wf2_AtWA)
  from solve_singular [OF wf2_AtWA(2) wf2_AtWA(1) lrhs sing']
  have s4: "np_linalg_solve ?M rhs = Inl LinAlgError" .
  show ?thesis
    by (simp only: tensor_vector_scalar_def bind_def s1 s2 s3 s4 sum.case)
qed

lemma slogdet_AtWA:
  "np_linalg_slogdet (AtWA A w) =
     Inr (sgn (lu_det (ncols A) (rows (AtWA A w))), np_log \<bar>lu_det (ncols A) (rows (AtWA A w))\<bar>)"
  by (simp add: np_linalg_slogdet_def wf2_AtWA Let_def)

lemma fsum_log_pos:
  "\<forall>v \<in> set ws. 0 < v \<Longrightarrow>
   fsum (map (\<lambda>v. np_log (v / (2 * pi))) ws) = Fin (\<Sum>v\<leftarrow>ws. ln (v / (2 * pi)))"
  by (induction ws) (simp_all add: fsum_def np_log_def)

lemma marginal_ln_likelihood_from_unfold:
  assumes "ivar = get_ivar data (nonlinear_p ! 4)" and "4 < length nonlinear_p"
    and "tensor_vector_scalar A ivar (rv data) = Inr (M, p, chi2)"
    and "np_linalg_slogdet M = Inr (sign, logdet)"
  shows "marginal_ln_likelihood_from get_ivar A nonlinear_p data =
           (if sign \<noteq> 1 then Inr (Scalar NaN)
            else Inr (Array1
                   [fsub (fscale (1 / 2) (fadd logdet (fsum (map (\<lambda>v. np_log (v / (2 * pi))) ivar))))
                         (Fin (1 / 2 * chi2))]))"
  using assms by (simp add: marginal_ln_likelihood_from_def bind_def Let_def)

lemma marginal_ln_likelihood_from_error:
  assumes "ivar = get_ivar data (nonlinear_p ! 4)" and "4 < length nonlinear_p"
    and "tensor_vector_scalar A ivar (rv data) = Inl e"
  shows "marginal_ln_likelihood_from get_ivar A nonlinear_p data = Inl e"
  using assms by (simp add: marginal_ln_likelihood_from_def bind_def Let_def)

lemma marginal_ln_likelihood_from_value:
  assumes "ivar = get_ivar data (nonlinear_p ! 4)" and "4 < length nonlinear_p"
    and "tensor_vector_scalar A ivar (rv data) = Inr (M, p, chi2)"
    and "np_linalg_slogdet M = Inr (1, Fin logdet)"
    and "\<forall>v \<in> set ivar. 0 < v"
  shows "marginal_ln_likelihood_from get_ivar A nonlinear_p data =
           Inr (Array1 [Fin (1 / 2 * (logdet + (\<Sum>v\<leftarrow>ivar. ln (v / (2 * pi)))) - 1 / 2 * chi2)])"
  using marginal_ln_likelihood_from_unfold [where get_ivar = get_ivar and data = data, OF assms(1,2,3,4)] fsum_log_pos [OF assms(5)]
  by (simp add: fsub_def)


lemma marginal_ln_likelihood_from_gate_aux:
  assumes iv: "ivar = get_ivar data (nonlinear_p ! 4)" and len: "4 < length nonlinear_p"
    and wf: "wf2 A" and li: "length ivar = nrows A" and ly: "length (rv data) = nrows A"
    and d: "d = lu_det (ncols A) (rows (AtWA A ivar))"
  shows "d = 0 \<Longrightarrow> marginal_ln_likelihood_from get_ivar A nonlinear_p data = Inl LinAlgError"
    and "d < 0 \<Longrightarrow> marginal_ln_likelihood_from get_ivar A nonlinear_p data = Inr (Scalar NaN)"
    and "0 < d \<Longrightarrow> \<forall>v \<in> set ivar. 0 < v \<Longrightarrow>
           \<exists>p chi2. tensor_vector_scalar A ivar (rv data) = Inr (AtWA A ivar, p, chi2) \<and>
             marginal_ln_likelihood_from get_ivar A nonlinear_p data =
               Inr (Array1 [Fin (1 / 2 * (ln d + (\<Sum>v\<leftarrow>ivar. ln (v / (2 * pi)))) - 1 / 2 * chi2)])"
proof -
  show "marginal_ln_likelihood_from get_ivar A nonlinear_p data = Inl LinAlgError" if "d = 0"
    using marginal_ln_likelihood_from_error [where get_ivar = get_ivar and data = data, OF iv len] tvs_singular_aux [OF li ly] that d by simp
next
  assume neg: "d < 0"
  then have "d \<noteq> 0" by simp
  with tvs_regular_aux [OF wf li ly] d obtain p chi2 where
    t: "tensor_vector_scalar A ivar (rv data) = Inr (AtWA A ivar, p, chi2)" by auto
  have "sgn d \<noteq> 1" using neg by simp
  with marginal_ln_likelihood_from_unfold [where get_ivar = get_ivar and data = data, OF iv len t slogdet_AtWA] d
  show "marginal_ln_likelihood_from get_ivar A nonlinear_p data = Inr (Scalar NaN)" by simp
next
  assume pos: "0 < d" and ivpos: "\<forall>v \<in> set ivar. 0 < v"
  then have "d \<noteq> 0" by simp
  with tvs_regular_aux [OF wf li ly] d obtain p chi2 where
    t: "tensor_vector_scalar A ivar (rv data) = Inr (AtWA A ivar, p, chi2)" by auto
  have s: "np_linalg_slogdet (AtWA A ivar) = Inr (1, Fin (ln d))"
    using pos d by (simp add: slogdet_AtWA np_log_def)
  from marginal_ln_likelihood_from_value [where get_ivar = get_ivar and data = data, OF iv len t s ivpos] t
  show "\<exists>p chi2. tensor_vector_scalar A ivar (rv data) = Inr (AtWA A ivar, p, chi2) \<and>
             marginal_ln_likelihood_from get_ivar A nonlinear_p data =
               Inr (Array1 [Fin (1 / 2 * (ln d + (\<Sum>v\<leftarrow>ivar. ln (v / (2 * pi)))) - 1 / 2 * chi2)])"
    by blast
qed

lemma validate_key_valid: "key \<in> set valid_keys \<Longrightarrow> validate_key key = Inr ()"
  by (simp add: validate_key_def)

lemma setitem_invalid_key: "key \<notin> set valid_keys \<Longrightarrow> setitem self key val h = Inl InvalidKey"
  by (simp add: setitem_def validate_key_def bind_def)

lemma setitem_first:
  "key \<in> set valid_keys \<Longrightarrow> priv_shape self = None \<Longrightarrow>
   setitem self key val h =
     Inr (self\<lparr>priv_size := Some (arr_size val), priv_shape := Some (arr_shape val),
               items := od_set (items self) key (nxt h)\<rparr>,
          h\<lparr>arrs := (arrs h)(nxt h := val), nxt := Suc (nxt h)\<rparr>)"
  by (simp add: setitem_def validate_key_def validate_val_def alloc_arr_def bind_def)

lemma setitem_same_shape:
  "key \<in> set valid_keys \<Longrightarrow> priv_shape self = Some (arr_shape val) \<Longrightarrow>
   setitem self key val h =
     Inr (self\<lparr>items := od_set (items self) key (nxt h)\<rparr>,
          h\<lparr>arrs := (arrs h)(nxt h := val), nxt := Suc (nxt h)\<rparr>)"
  by (simp add: setitem_def validate_key_def validate_val_def alloc_arr_def bind_def)

lemma setitem_shape_mismatch:
  "key \<in> set valid_keys \<Longrightarrow> priv_shape self = Some shp \<Longrightarrow> arr_shape val \<noteq> shp \<Longrightarrow>
   setitem self key val h = (if arr_shape val = [] then Inl TypeError else Inl ShapeMismatch)"
  by (simp add: setitem_def validate_key_def validate_val_def alloc_arr_def bind_def)

lemma setitem_shape_fixed:
  "setitem self key val h = Inr (self', h') \<Longrightarrow>
   priv_shape self' = Some (arr_shape val) \<and> priv_size self' = Some (arr_size val) \<or>
   priv_shape self \<noteq> None \<and> priv_shape self' = priv_shape self \<and> priv_size self' = priv_size self"
  by (auto simp: setitem_def validate_key_def validate_val_def alloc_arr_def bind_def Let_def
      split: if_splits option.splits)

lemma median_eq: "median self h = mean self h"
  by (simp add: median_def mean_def)

section \<open>Properties of the sample container\<close>

lemmas store_simps =
  init_def setitem_def validate_key_def validate_val_def alloc_arr_def alloc_dict_def
  alloc_orbit_def alloc_elements_def bind_def valid_keys_def arr_size_def empty_heap_def Let_def

lemmas orbit_simps =
  get_orbit_def ensure_template_def copy_orbit_def row_def getitem_key_def np_getitem_def np_index_def
  semi_major_axis_def arr_map2_def arr_map_def template_elements_def scalar_def fsub_def
  orbit_elements_def

lemma period_samples_eq:
  "period_samples =
     Inr (\<lparr>items = [(''P'', 0)], t0 = None, priv_size = Some 3, priv_shape = Some [3],
           priv_cache = Some 1\<rparr>,
          empty_heap\<lparr>arrs := (arrs empty_heap)(0 := NdArr [3] [Fin 1, Fin 2, Fin 3]),
                      dicts := (dicts empty_heap)(1 := []), nxt := 2\<rparr>)"
  by (simp add: period_samples_def store_simps eval_nat_numeral)

lemma two_samples_eq:
  "two_samples =
     Inr (\<lparr>items = [(''P'', 0), (''e'', 1), (''K'', 2), (''omega'', 3), (''M0'', 4), (''v0'', 5)],
           t0 = None, priv_size = Some 2, priv_shape = Some [2], priv_cache = Some 6\<rparr>,
          empty_heap\<lparr>arrs := (arrs empty_heap)
                        (0 := NdArr [2] [Fin 1, Fin 2], 1 := NdArr [2] [Fin 0, Fin 0],
                         2 := NdArr [2] [Fin 3, Fin 4], 3 := NdArr [2] [Fin 0, Fin 0],
                         4 := NdArr [2] [Fin 0, Fin 0], 5 := NdArr [2] [Fin 7, Fin 8]),
                      dicts := (dicts empty_heap)(6 := []), nxt := 7\<rparr>)"
  by (simp add: two_samples_def store_simps eval_nat_numeral)

lemma numeric_epoch_samples_eq:
  "numeric_epoch_samples =
     Inr (\<lparr>items = [(''P'', 0)], t0 = Some (Numeric 55000), priv_size = Some 3,
           priv_shape = Some [3], priv_cache = Some 1\<rparr>,
          empty_heap\<lparr>arrs := (arrs empty_heap)(0 := NdArr [3] [Fin 1, Fin 2, Fin 3]),
                      dicts := (dicts empty_heap)(1 := []), nxt := 2\<rparr>)"
  by (simp add: numeric_epoch_samples_def store_simps eval_nat_numeral)

lemma median_differs_from_np_median:
  "np_mean (NdArr [3] [Fin 1, Fin 2, Fin 6]) = NdArr [] [Fin 3] \<and>
   np_median (NdArr [3] [Fin 1, Fin 2, Fin 6]) = NdArr [] [Fin 2]"
  by (simp add: np_mean_def np_median_def fmean_def fsum_def)

lemma od_set_map_of: "map_of (od_set its k a) k' = (if k' = k then Some a else map_of its k')"
  by (induction its) auto

lemma od_set_keys:
  "map fst (od_set its k a) = (if k \<in> fst ` set its then map fst its else map fst its @ [k])"
  by (induction its) (fastforce simp: image_iff)+

lemma od_set_all_other: "k \<notin> set ks \<Longrightarrow> map_of (od_set_all its ks a) k = map_of its k"
  by (induction ks arbitrary: its a) (auto simp: od_set_map_of)

lemma od_set_all_nth:
  "distinct ks \<Longrightarrow> i < length ks \<Longrightarrow> map_of (od_set_all its ks a) (ks ! i) = Some (a + i)"
proof (induction ks arbitrary: its a i)
  case Nil
  then show ?case by simp
next
  case (Cons k ks)
  show ?case
  proof (cases i)
    case 0
    then show ?thesis using Cons.prems by (simp add: od_set_all_other od_set_map_of)
  next
    case (Suc j)
    then have "distinct ks" "j < length ks" using Cons.prems by simp_all
    then have "map_of (od_set_all (od_set its k a) ks (Suc a)) (ks ! j) = Some (Suc a + j)"
      by (rule Cons.IH)
    then show ?thesis using Suc by simp
  qed
qed

lemma od_set_all_keys_present:
  "set ks \<subseteq> fst ` set its \<Longrightarrow> map fst (od_set_all its ks a) = map fst its"
proof (induction ks arbitrary: its a)
  case Nil
  then show ?case by simp
next
  case (Cons k ks)
  have keys: "map fst (od_set its k a) = map fst its" using Cons.prems by (simp add: od_set_keys)
  then have "fst ` set (od_set its k a) = fst ` set its" by (metis set_map)
  with Cons.prems have "set ks \<subseteq> fst ` set (od_set its k a)" by simp
  from Cons.IH [OF this] keys show ?case by simp
qed

lemma od_set_all_keys_fresh:
  "distinct (map fst its @ ks) \<Longrightarrow> map fst (od_set_all its ks a) = map fst its @ ks"
proof (induction ks arbitrary: its a)
  case Nil
  then show ?case by simp
next
  case (Cons k ks)
  have knew: "k \<notin> fst ` set its" using Cons.prems by auto
  then have keys: "map fst (od_set its k a) = map fst its @ [k]" by (simp add: od_set_keys)
  have "distinct (map fst (od_set its k a) @ ks)" using Cons.prems keys by auto
  from Cons.IH [OF this] keys show ?case by simp
qed

lemma arrs_all_below: "b < a \<Longrightarrow> arrs_all f vs a b = f b"
  by (induction vs arbitrary: f a) auto

lemma arrs_all_nth: "i < length vs \<Longrightarrow> arrs_all f vs a (a + i) = vs ! i"
proof (induction vs arbitrary: f a i)
  case Nil
  then show ?case by simp
next
  case (Cons v vs)
  show ?case
  proof (cases i)
    case 0
    then show ?thesis by (simp add: arrs_all_below)
  next
    case (Suc j)
    then have "j < length vs" using Cons.prems by simp
    then have "arrs_all (f(a := v)) vs (Suc a) (Suc a + j) = vs ! j" by (rule Cons.IH)
    then show ?thesis using Suc by simp
  qed
qed

lemma setitem_ok:
  assumes "key \<in> set valid_keys" and "priv_shape y = None \<or> priv_shape y = Some (arr_shape v)"
  shows "\<exists>y' h'. setitem y key v h = Inr (y', h') \<and>
           items y' = od_set (items y) key (nxt h) \<and> t0 y' = t0 y \<and> priv_cache y' = priv_cache y \<and>
           priv_shape y' = Some (arr_shape v) \<and>
           priv_size y' = (if priv_shape y = None then Some (arr_size v) else priv_size y) \<and>
           arrs h' = (arrs h)(nxt h := v) \<and> nxt h' = Suc (nxt h) \<and>
           dicts h' = dicts h \<and> orbs h' = orbs h \<and> elems h' = elems h"
  using assms
  by (auto simp: setitem_def validate_key_def validate_val_def alloc_arr_def bind_def Let_def)

lemma set_all_ok:
  assumes "\<forall>(k, v) \<in> set kvs. k \<in> set valid_keys \<and> arr_shape v = shp"
    and "priv_shape y = None \<or> priv_shape y = Some shp"
  shows "\<exists>y' h'. set_all y kvs h = Inr (y', h') \<and>
           items y' = od_set_all (items y) (map fst kvs) (nxt h) \<and>
           t0 y' = t0 y \<and> priv_cache y' = priv_cache y \<and>
           priv_shape y' = (if kvs = [] then priv_shape y else Some shp) \<and>
           priv_size y' = (if kvs = [] \<or> priv_shape y \<noteq> None then priv_size y
                           else Some (prod_list shp)) \<and>
           arrs h' = arrs_all (arrs h) (map snd kvs) (nxt h) \<and> nxt h' = nxt h + length kvs \<and>
           dicts h' = dicts h \<and> orbs h' = orbs h \<and> elems h' = elems h"
  using assms
proof (induction kvs arbitrary: y h)
  case Nil
  then show ?case by simp
next
  case (Cons kv kvs)
  obtain k v where kv: "kv = (k, v)" by (cases kv)
  have kval: "k \<in> set valid_keys" and sv: "arr_shape v = shp" using Cons.prems(1) kv by auto
  have sh: "priv_shape y = None \<or> priv_shape y = Some (arr_shape v)" using Cons.prems(2) sv by simp
  from setitem_ok [OF kval sh, of h] obtain y1 h1 where
    s: "setitem y k v h = Inr (y1, h1)" and
    f: "items y1 = od_set (items y) k (nxt h)" "t0 y1 = t0 y" "priv_cache y1 = priv_cache y"
       "priv_shape y1 = Some (arr_shape v)"
       "priv_size y1 = (if priv_shape y = None then Some (arr_size v) else priv_size y)"
       "arrs h1 = (arrs h)(nxt h := v)" "nxt h1 = Suc (nxt h)"
       "dicts h1 = dicts h" "orbs h1 = orbs h" "elems h1 = elems h"
    by blast
  have rest: "\<forall>(k, v) \<in> set kvs. k \<in> set valid_keys \<and> arr_shape v = shp"
    using Cons.prems(1) by auto
  have sh1: "priv_shape y1 = None \<or> priv_shape y1 = Some shp" using f(4) sv by simp
  from Cons.IH [OF rest sh1, of h1] obtain y' h' where
    r: "set_all y1 kvs h1 = Inr (y', h')" and
    g: "items y' = od_set_all (items y1) (map fst kvs) (nxt h1)"
       "t0 y' = t0 y1" "priv_cache y' = priv_cache y1"
       "priv_shape y' = (if kvs = [] then priv_shape y1 else Some shp)"
       "priv_size y' = (if kvs = [] \<or> priv_shape y1 \<noteq> None then priv_size y1
                        else Some (prod_list shp))"
       "arrs h' = arrs_all (arrs h1) (map snd kvs) (nxt h1)" "nxt h' = nxt h1 + length kvs"
       "dicts h' = dicts h1" "orbs h' = orbs h1" "elems h' = elems h1"
    by blast
  have "set_all y (kv # kvs) h = Inr (y', h')" using s r kv by (simp add: bind_def)
  then show ?case using f g sv kv by (auto simp: arr_size_def)
qed

lemma setitem_heap:
  "setitem y k v h = Inr (y', h') \<Longrightarrow> arrs h' = (arrs h)(nxt h := v) \<and> nxt h' = Suc (nxt h)"
  by (auto simp: setitem_def validate_key_def validate_val_def alloc_arr_def bind_def Let_def
      split: if_splits option.splits)

lemma copy_items_eq:
  "\<forall>(k, a) \<in> set kvs. a < nxt h \<Longrightarrow>
   copy_items y kvs h = set_all y (map (\<lambda>(k, a). (k, arrs h a)) kvs) h"
proof (induction kvs arbitrary: y h)
  case Nil
  then show ?case by simp
next
  case (Cons ka kvs)
  obtain k a where ka: "ka = (k, a)" by (cases ka)
  show ?case
  proof (cases "setitem y k (arrs h a) h")
    case (Inl e)
    then show ?thesis using ka by (simp add: bind_def)
  next
    case (Inr r)
    obtain y1 h1 where r: "r = (y1, h1)" by (cases r)
    from setitem_heap [of y k "arrs h a" h y1 h1] Inr r
    have hp: "arrs h1 = (arrs h)(nxt h := arrs h a)" "nxt h1 = Suc (nxt h)" by auto
    have below: "\<forall>(k, a) \<in> set kvs. a < nxt h1" using Cons.prems hp by auto
    have same: "map (\<lambda>(k, a). (k, arrs h1 a)) kvs = map (\<lambda>(k, a). (k, arrs h a)) kvs"
      using Cons.prems hp by auto
    from Cons.IH [OF below, of y1] same Inr r ka show ?thesis by (simp add: bind_def)
  qed
qed

lemma slice_items_eq:
  "\<forall>(k, a) \<in> set kvs. a < nxt h \<and> np_getitem (arrs h a) slc = Inr (g a) \<Longrightarrow>
   slice_items new kvs slc h = set_all new (map (\<lambda>(k, a). (k, g a)) kvs) h"
proof (induction kvs arbitrary: new h)
  case Nil
  then show ?case by simp
next
  case (Cons ka kvs)
  obtain k a where ka: "ka = (k, a)" by (cases ka)
  have ga: "np_getitem (arrs h a) slc = Inr (g a)" using Cons.prems ka by auto
  show ?case
  proof (cases "setitem new k (g a) h")
    case (Inl e)
    then show ?thesis using ka ga by (simp add: bind_def)
  next
    case (Inr r)
    obtain y1 h1 where r: "r = (y1, h1)" by (cases r)
    from setitem_heap [of new k "g a" h y1 h1] Inr r
    have hp: "arrs h1 = (arrs h)(nxt h := g a)" "nxt h1 = Suc (nxt h)" by auto
    have below: "\<forall>(k, a) \<in> set kvs. a < nxt h1 \<and> np_getitem (arrs h1 a) slc = Inr (g a)"
      using Cons.prems hp by auto
    from Cons.IH [OF below, of y1] Inr r ka ga show ?thesis by (simp add: bind_def)
  qed
qed

lemma init_empty:
  "init t [] h =
     Inr (\<lparr>items = [], t0 = t, priv_size = None, priv_shape = None, priv_cache = Some (nxt h)\<rparr>,
          h\<lparr>dicts := (dicts h)(nxt h := []), nxt := Suc (nxt h)\<rparr>)"
  by (simp add: init_def bind_def alloc_dict_def)

lemma np_slice_shape:
  "arr_shape x = d # rest \<Longrightarrow>
   \<exists>v. np_slice x lo hi = Inr v \<and> arr_shape v = snd (slice_bounds d lo hi) # rest"
  by (simp add: np_slice_def Let_def split: prod.splits)

lemma map_fst_pairs [simp]: "map fst (map (\<lambda>(k, a). (k, f a)) kvs) = map fst kvs"
  by (induction kvs) auto

lemma map_snd_pairs [simp]: "map snd (map (\<lambda>(k, a). (k, f a)) kvs) = map (\<lambda>(k, a). f a) kvs"
  by (induction kvs) auto

lemma getitem_slice_aux:
  assumes wf: "wf_samples h self" and shp: "priv_shape self = Some (d # rest)"
  shows "\<exists>new h'. getitem_slice self (Slice lo hi) h = Inr (new, h') \<and>
           map fst (items new) = map fst (items self) \<and>
           (\<forall>key a. map_of (items self) key = Some a \<longrightarrow>
              (\<exists>a'. map_of (items new) key = Some a' \<and> nxt h \<le> a' \<and>
                    np_slice (arrs h a) lo hi = Inr (arrs h' a'))) \<and>
           (\<forall>a<nxt h. arrs h' a = arrs h a) \<and>
           priv_cache new = priv_cache self \<and> t0 new = t0 self \<and>
           priv_shape new = (if items self = [] then None
                             else Some (snd (slice_bounds d lo hi) # rest))"
proof -
  define kvs where "kvs = items self"
  define n where "n = snd (slice_bounds d lo hi)"
  define g where "g a = projr (np_slice (arrs h a) lo hi)" for a
  have dist: "distinct (map fst kvs)" using wf unfolding wf_samples_def kvs_def by simp
  have valid: "\<forall>(k, a) \<in> set kvs. k \<in> set valid_keys"
    using wf unfolding wf_samples_def kvs_def by force
  have old: "\<forall>(k, a) \<in> set kvs. a < nxt h"
    using wf unfolding wf_samples_def kvs_def by force
  have shapes: "\<forall>(k, a) \<in> set kvs. arr_shape (arrs h a) = d # rest"
    using wf shp unfolding wf_samples_def kvs_def by force
  have gs: "np_slice (arrs h a) lo hi = Inr (g a) \<and> arr_shape (g a) = n # rest"
    if "(k, a) \<in> set kvs" for k a
  proof -
    from that shapes have "arr_shape (arrs h a) = d # rest" by auto
    from np_slice_shape [OF this, of lo hi] show ?thesis by (auto simp: g_def n_def)
  qed
  \<comment> \<open>the shallow copy\<close>
  define y1 where "y1 = \<lparr>items = [], t0 = t0 self, priv_size = priv_size self,
                          priv_shape = priv_shape self, priv_cache = priv_cache self\<rparr>"
  define h0 where "h0 = h\<lparr>dicts := (dicts h)(nxt h := []), nxt := Suc (nxt h)\<rparr>"
  define kvs1 where "kvs1 = map (\<lambda>(k, a). (k, arrs h0 a)) kvs"
  have mf1: "map fst kvs1 = map fst kvs" unfolding kvs1_def by (rule map_fst_pairs)
  have l1: "length kvs1 = length kvs" unfolding kvs1_def by simp
  have cc: "copy_copy self h = copy_items y1 kvs h0"
    by (simp add: copy_copy_def init_empty bind_def y1_def h0_def kvs_def)
  have old0: "\<forall>(k, a) \<in> set kvs. a < nxt h0" using old by (auto simp: h0_def)
  have c1: "copy_items y1 kvs h0 = set_all y1 kvs1 h0"
    unfolding kvs1_def by (rule copy_items_eq [OF old0])
  have pre1: "\<forall>(k, v) \<in> set kvs1. k \<in> set valid_keys \<and> arr_shape v = d # rest"
    using valid shapes by (auto simp: kvs1_def h0_def)
  have sh1: "priv_shape y1 = None \<or> priv_shape y1 = Some (d # rest)" using shp by (simp add: y1_def)
  from set_all_ok [OF pre1 sh1, of h0] obtain y2 h2 where
    s2: "set_all y1 kvs1 h0 = Inr (y2, h2)" and
    i2: "items y2 = od_set_all (items y1) (map fst kvs1) (nxt h0)" and
    t2: "t0 y2 = t0 y1" "priv_cache y2 = priv_cache y1" and
    a2: "arrs h2 = arrs_all (arrs h0) (map snd kvs1) (nxt h0)" and
    n2: "nxt h2 = nxt h0 + length kvs1"
    by blast
  have keys2: "map fst (items y2) = map fst kvs"
    using i2 dist od_set_all_keys_fresh [of "[]" "map fst kvs" "nxt h0"]
    by (simp add: y1_def mf1)
  have below2: "arrs h2 a = arrs h a" if "a < nxt h" for a
    using that a2 by (simp add: arrs_all_below h0_def)
  \<comment> \<open>the assignments of the slices\<close>
  define new0 where "new0 = y2\<lparr>priv_size := None, priv_shape := None\<rparr>"
  define kvs2 where "kvs2 = map (\<lambda>(k, a). (k, g a)) kvs"
  have mf2: "map fst kvs2 = map fst kvs" unfolding kvs2_def by (rule map_fst_pairs)
  have ms2: "map snd kvs2 = map (\<lambda>(k, a). g a) kvs" unfolding kvs2_def by (rule map_snd_pairs)
  have l2: "length kvs2 = length kvs" unfolding kvs2_def by simp
  have gi: "getitem_slice self (Slice lo hi) h = slice_items new0 kvs (Slice lo hi) h2"
  proof -
    have "copy_copy self h = Inr (y2, h2)" using cc c1 s2 by simp
    then show ?thesis by (simp add: getitem_slice_def bind_def new0_def kvs_def)
  qed
  have pre: "\<forall>(k, a) \<in> set kvs. a < nxt h2 \<and> np_getitem (arrs h2 a) (Slice lo hi) = Inr (g a)"
  proof (clarify, intro conjI)
    fix k a assume in_kvs: "(k, a) \<in> set kvs"
    then have lt: "a < nxt h" using old by auto
    then show "a < nxt h2" using n2 l1 by (simp add: h0_def)
    show "np_getitem (arrs h2 a) (Slice lo hi) = Inr (g a)"
      using gs [OF in_kvs] below2 [OF lt] by (simp add: np_getitem_def)
  qed
  have c2: "slice_items new0 kvs (Slice lo hi) h2 = set_all new0 kvs2 h2"
    unfolding kvs2_def by (rule slice_items_eq [OF pre])
  have pre2: "\<forall>(k, v) \<in> set kvs2. k \<in> set valid_keys \<and> arr_shape v = n # rest"
    using valid gs by (auto simp: kvs2_def)
  have sh2: "priv_shape new0 = None \<or> priv_shape new0 = Some (n # rest)" by (simp add: new0_def)
  from set_all_ok [OF pre2 sh2, of h2] obtain y3 h3 where
    s3: "set_all new0 kvs2 h2 = Inr (y3, h3)" and
    i3: "items y3 = od_set_all (items new0) (map fst kvs2) (nxt h2)" and
    t3: "t0 y3 = t0 new0" "priv_cache y3 = priv_cache new0" and
    p3: "priv_shape y3 = (if kvs2 = [] then priv_shape new0 else Some (n # rest))" and
    a3: "arrs h3 = arrs_all (arrs h2) (map snd kvs2) (nxt h2)"
    by blast
  have res: "getitem_slice self (Slice lo hi) h = Inr (y3, h3)" using gi c2 s3 by simp
  have keys3: "map fst (items y3) = map fst kvs"
  proof -
    have "set (map fst kvs) = fst ` set (items new0)"
      using keys2 by (simp add: new0_def) (metis set_map)
    then have "set (map fst kvs2) \<subseteq> fst ` set (items new0)" using mf2 by simp
    from od_set_all_keys_present [OF this, of "nxt h2"] i3 keys2 show ?thesis
      by (simp add: new0_def)
  qed
  have below3: "arrs h3 a = arrs h a" if lt: "a < nxt h" for a
  proof -
    have "a < nxt h2" using lt n2 l1 by (simp add: h0_def)
    then show ?thesis using a3 below2 [OF lt] by (simp add: arrs_all_below)
  qed
  have each: "\<exists>a'. map_of (items y3) key = Some a' \<and> nxt h \<le> a' \<and>
                np_slice (arrs h a) lo hi = Inr (arrs h3 a')"
    if m: "map_of (items self) key = Some a" for key a
  proof -
    from m have in_kvs: "(key, a) \<in> set kvs" by (simp add: kvs_def map_of_SomeD)
    then obtain i where i: "i < length kvs" "kvs ! i = (key, a)" by (auto simp: in_set_conv_nth)
    have dk: "distinct (map fst kvs2)" using dist mf2 by simp
    have li: "i < length (map fst kvs2)" using i l2 by simp
    have ki: "map fst kvs2 ! i = key" using i mf2 by simp
    from od_set_all_nth [OF dk li, of "items new0" "nxt h2"] i3 ki
    have look: "map_of (items y3) key = Some (nxt h2 + i)" by simp
    have lv: "i < length (map snd kvs2)" using i l2 by simp
    have "arrs h3 (nxt h2 + i) = map snd kvs2 ! i"
      using a3 arrs_all_nth [OF lv, of "arrs h2" "nxt h2"] by simp
    also have "\<dots> = g a" using i ms2 by simp
    finally have val: "arrs h3 (nxt h2 + i) = g a" .
    have "nxt h \<le> nxt h2 + i" using n2 l1 by (simp add: h0_def)
    with look val gs [OF in_kvs] show ?thesis by auto
  qed
  have cache: "priv_cache y3 = priv_cache self" "t0 y3 = t0 self"
    using t3 t2 by (simp_all add: new0_def y1_def)
  have shape3: "priv_shape y3 = (if items self = [] then None else Some (n # rest))"
    using p3 l2 by (auto simp: new0_def kvs_def)
  show ?thesis
    using res keys3 each below3 cache shape3 unfolding kvs_def n_def by blast
qed

lemma mean_samples_eq:
  "mean_samples =
     Inr (\<lparr>items = [(''P'', 7), (''e'', 8), (''K'', 9), (''omega'', 10), (''M0'', 11), (''v0'', 12)],
           t0 = None, priv_size = Some 1, priv_shape = Some [], priv_cache = Some 13\<rparr>,
          empty_heap\<lparr>arrs := (arrs empty_heap)
                        (0 := NdArr [2] [Fin 1, Fin 2], 1 := NdArr [2] [Fin 0, Fin 0],
                         2 := NdArr [2] [Fin 3, Fin 4], 3 := NdArr [2] [Fin 0, Fin 0],
                         4 := NdArr [2] [Fin 0, Fin 0], 5 := NdArr [2] [Fin 7, Fin 8],
                         7 := NdArr [] [Fin (3 / 2)], 8 := NdArr [] [Fin 0],
                         9 := NdArr [] [Fin (7 / 2)], 10 := NdArr [] [Fin 0],
                         11 := NdArr [] [Fin 0], 12 := NdArr [] [Fin (15 / 2)]),
                      dicts := (dicts empty_heap)(6 := [], 13 := []), nxt := 14\<rparr>)"
  by (simp add: mean_samples_def two_samples_eq bind_def)
     (simp add: mean_def apply_func_def np_mean_def fmean_def fsum_def store_simps eval_nat_numeral)

lemmas slice_simps =
  getitem_slice_def copy_copy_def np_getitem_def np_slice_def slice_bounds_def clip_def

lemma row_arrs: "arrs h' = arrs h \<Longrightarrow> row self key i h' = row self key i h"
  by (simp add: row_def)

lemma map_of_present: "k \<in> fst ` set kvs \<Longrightarrow> \<exists>v. map_of kvs k = Some v"
  by (metis domD dom_map_of_conv_image_fst)

lemma ensure_template_props:
  "arrs (ensure_template self c h) = arrs h \<and> nxt h \<le> nxt (ensure_template self c h) \<and>
   (\<exists>tmpl. map_of (dicts (ensure_template self c h) c) ''orbit'' = Some tmpl)"
  by (auto simp: ensure_template_def alloc_elements_def alloc_orbit_def Let_def od_set_map_of
      dest: weak_map_of_SomeI)

lemma stored_arrs: "arrs h' = arrs h \<Longrightarrow> stored self h' key = stored self h key"
  by (simp add: stored_def)

lemma row_1d:
  assumes "stored self h key = Some (NdArr [N] xs)" and "length xs = N" and "i < N"
  shows "row self key (int i) h = Inr (NdArr [] [xs ! i])"
proof -
  from assms(1) obtain a where a: "map_of (items self) key = Some a" "arrs h a = NdArr [N] xs"
    by (auto simp: stored_def)
  have "take (Suc 0) (drop i xs) = [xs ! i]"
    using assms(2,3) by (simp add: Cons_nth_drop_Suc [symmetric])
  then show ?thesis
    using a assms(3)
    by (simp add: row_def getitem_key_def bind_def np_getitem_def np_index_def Let_def)
qed

lemma semi_major_axis_scalar:
  "semi_major_axis (NdArr [] [p]) (NdArr [] [q]) (NdArr [] [e]) =
     Inr (NdArr [] [fmul (fscale (1 / (2 * pi)) (fmul p q)) (fsqrt (fsub (Fin 1) (fmul e e)))])"
  by (simp add: semi_major_axis_def arr_map2_def arr_map_def bind_def)

lemma semi_major_axis_finite:
  "e\<^sup>2 \<le> 1 \<Longrightarrow>
   fmul (fscale (1 / (2 * pi)) (fmul (Fin p) (Fin q))) (fsqrt (fsub (Fin 1) (fmul (Fin e) (Fin e))))
     = Fin (p * q / (2 * pi) * sqrt (1 - e\<^sup>2))"
  by (simp add: fsub_def power2_eq_square)

lemma od_set_set: "set (od_set its k a) \<subseteq> insert (k, a) (set its)"
  by (induction its) (auto split: if_splits)

lemma od_set_distinct: "distinct (map fst its) \<Longrightarrow> distinct (map fst (od_set its k a))"
  by (simp add: od_set_keys)

lemma od_set_key_set: "fst ` set (od_set its k a) = insert k (fst ` set its)"
proof -
  have "set (map fst (od_set its k a)) = insert k (set (map fst its))"
    by (auto simp: od_set_keys)
  then show ?thesis by simp
qed

lemma setitem_wf:
  assumes wf: "wf_samples h self" and s: "setitem self key val h = Inr (self', h')"
  shows "wf_samples h' self'"
proof -
  have kv: "key \<in> set valid_keys"
    using s by (auto simp: setitem_def validate_key_def bind_def split: if_splits)
  have sh: "priv_shape self = None \<or> priv_shape self = Some (arr_shape val)"
    using s kv
    by (auto simp: setitem_def validate_key_def validate_val_def alloc_arr_def bind_def Let_def
        split: if_splits option.splits)
  from setitem_ok [OF kv sh, of h] s have
    f: "items self' = od_set (items self) key (nxt h)" "priv_shape self' = Some (arr_shape val)"
       "priv_size self' = (if priv_shape self = None then Some (arr_size val) else priv_size self)"
       "arrs h' = (arrs h)(nxt h := val)" "nxt h' = Suc (nxt h)"
    by auto
  have d: "distinct (map fst (items self'))" using wf f(1) by (simp add: wf_samples_def od_set_distinct)
  have v: "fst ` set (items self') \<subseteq> set valid_keys"
    using wf kv f(1) by (simp add: wf_samples_def od_set_key_set)
  have z: "priv_size self' = map_option prod_list (priv_shape self')"
    using wf sh f(2,3) by (auto simp: wf_samples_def arr_size_def)
  have "a < nxt h' \<and> priv_shape self' = Some (arr_shape (arrs h' a))"
    if "(k, a) \<in> set (items self')" for k a
  proof -
    from that f(1) od_set_set [of "items self" key "nxt h"]
    have "(k, a) = (key, nxt h) \<or> (k, a) \<in> set (items self)" by auto
    then show ?thesis
    proof
      assume "(k, a) = (key, nxt h)"
      then show ?thesis using f by simp
    next
      assume old: "(k, a) \<in> set (items self)"
      with wf have "a < nxt h" "priv_shape self = Some (arr_shape (arrs h a))"
        by (auto simp: wf_samples_def)
      then show ?thesis using f sh by auto
    qed
  qed
  with d v z show ?thesis unfolding wf_samples_def by blast
qed

lemma set_all_wf:
  "wf_samples h self \<Longrightarrow> set_all self kvs h = Inr (self', h') \<Longrightarrow> wf_samples h' self'"
proof (induction kvs arbitrary: self h)
  case Nil
  then show ?case by simp
next
  case (Cons kv kvs)
  obtain k v where kv: "kv = (k, v)" by (cases kv)
  from Cons.prems(2) kv obtain y1 h1 where
    s: "setitem self k v h = Inr (y1, h1)" and r: "set_all y1 kvs h1 = Inr (self', h')"
    by (auto simp: bind_def split: sum.splits)
  from Cons.IH [OF setitem_wf [OF Cons.prems(1) s] r] show ?case .
qed

lemma wf_samples_frame:
  "wf_samples h self \<Longrightarrow> arrs h' = arrs h \<Longrightarrow> nxt h \<le> nxt h' \<Longrightarrow> wf_samples h' self"
  unfolding wf_samples_def by fastforce

lemma wf_samples_cache:
  "wf_samples h self \<Longrightarrow> wf_samples h (self\<lparr>priv_cache := c\<rparr>)"
  by (simp add: wf_samples_def)

lemma setitem_attrs:
  "setitem self k v h = Inr (self', h') \<Longrightarrow> t0 self' = t0 self \<and> priv_cache self' = priv_cache self"
  by (auto simp: setitem_def validate_key_def validate_val_def alloc_arr_def bind_def Let_def
      split: if_splits option.splits)

lemma set_all_attrs:
  "set_all self kvs h = Inr (self', h') \<Longrightarrow> t0 self' = t0 self \<and> priv_cache self' = priv_cache self"
proof (induction kvs arbitrary: self h)
  case Nil
  then show ?case by simp
next
  case (Cons kv kvs)
  obtain k v where kv: "kv = (k, v)" by (cases kv)
  from Cons.prems kv obtain y1 h1 where
    s: "setitem self k v h = Inr (y1, h1)" and r: "set_all y1 kvs h1 = Inr (self', h')"
    by (auto simp: bind_def split: sum.splits)
  from Cons.IH [OF r] setitem_attrs [OF s] show ?case by simp
qed

lemma init_wf:
  assumes "init t kwargs h = Inr (self, h')"
  shows "wf_samples h' self \<and> (\<exists>c. priv_cache self = Some c) \<and> t0 self = t"
proof -
  let ?e = "\<lparr>items = [], t0 = t, priv_size = None, priv_shape = None, priv_cache = None\<rparr>"
  from assms obtain y1 h1 where
    s: "set_all ?e kwargs h = Inr (y1, h1)" and
    r: "self = y1\<lparr>priv_cache := Some (nxt h1)\<rparr>"
       "h' = h1\<lparr>dicts := (dicts h1)(nxt h1 := []), nxt := Suc (nxt h1)\<rparr>"
    by (auto simp: init_def bind_def alloc_dict_def split: sum.splits)
  have "wf_samples h ?e" by (simp add: wf_samples_def)
  from set_all_wf [OF this s] have w1: "wf_samples h1 y1" .
  have "wf_samples h' y1" using r(2) by (intro wf_samples_frame [OF w1]) simp_all
  then have "wf_samples h' self" using r(1) by (simp add: wf_samples_cache)
  moreover have "t0 self = t" using set_all_attrs [OF s] r(1) by simp
  ultimately show ?thesis using r(1) by simp
qed

lemma write_items_datasets:
  "distinct (map fst kvs) \<Longrightarrow>
   datasets (write_items kvs h f) key =
     (case map_of kvs key of Some a \<Rightarrow> Some (arrs h a) | None \<Rightarrow> datasets f key) \<and>
   attrs (write_items kvs h f) = attrs f"
proof (induction kvs arbitrary: f)
  case Nil
  then show ?case by simp
next
  case (Cons ka kvs)
  obtain k a where ka: "ka = (k, a)" by (cases ka)
  have d: "distinct (map fst kvs)" and kn: "map_of kvs k = None"
    using Cons.prems ka by (auto simp: map_of_eq_None_iff)
  from Cons.IH [OF d, of "quantity_to_hdf5 f k (arrs h a)"] ka kn show ?case
    by (auto simp: quantity_to_hdf5_def split: option.splits)
qed

lemma read_keys_eq:
  "read_keys y keys f None h =
     set_all y (map (\<lambda>k. (k, the (datasets f k))) (filter (\<lambda>k. datasets f k \<noteq> None) keys)) h"
proof (induction keys arbitrary: y h)
  case Nil
  then show ?case by simp
next
  case (Cons k keys)
  show ?case
  proof (cases "datasets f k")
    case None
    then show ?thesis using Cons.IH by simp
  next
    case (Some q)
    then show ?thesis using Cons.IH
      by (simp add: quantity_from_hdf5_def bind_def split: sum.splits)
  qed
qed

lemma distinct_valid_keys: "distinct valid_keys"
  by (simp add: valid_keys_def)

text \<open>
  Persisting a well-formed container with at least one key, whose reference epoch is absent
  or a \<open>Time\<close>, into an empty group and restoring it gives a container with the same arrays
  under the same keys, the same reference epoch and the same shape and size.
\<close>

lemma hdf5_round_trip:
  assumes wf: "wf_samples h self" and ne: "items self \<noteq> []"
    and t: "\<forall>x. t0 self \<noteq> Some (Numeric x)"
  shows "\<exists>f new h'. to_hdf5 self h empty_file = Inr f \<and> from_hdf5 f None [] h = Inr (new, h') \<and>
           (\<forall>key. stored new h' key = stored self h key) \<and> t0 new = t0 self \<and>
           priv_shape new = priv_shape self \<and> priv_size new = priv_size self"
proof -
  have dist: "distinct (map fst (items self))" using wf by (simp add: wf_samples_def)
  define f0 where "f0 = write_items (items self) h empty_file"
  have ds0: "datasets f0 key = stored self h key" for key
    using write_items_datasets [OF dist, of h empty_file key]
    by (simp add: f0_def stored_def empty_file_def split: option.splits)
  have at0: "attrs f0 = Map.empty"
    using write_items_datasets [OF dist, of h empty_file] by (simp add: f0_def empty_file_def)
  define f where "f = (case t0 self of None \<Rightarrow> f0
                       | Some (TimeObj x) \<Rightarrow> f0\<lparr>attrs := (attrs f0)(''t0_bmjd'' \<mapsto> x)\<rparr>
                       | Some (Numeric x) \<Rightarrow> f0)"
  have w: "to_hdf5 self h empty_file = Inr f"
    using t by (auto simp: to_hdf5_def f_def f0_def Let_def split: option.splits t0val.splits)
  have ds: "datasets f key = stored self h key" for key
    using ds0 by (simp add: f_def split: option.splits t0val.splits)
  have at: "map_option TimeObj (attrs f ''t0_bmjd'') = t0 self"
    using t at0 by (auto simp: f_def split: option.splits t0val.splits)
  \<comment> \<open>the shape of the stored arrays\<close>
  from ne obtain k0 a0 where in0: "(k0, a0) \<in> set (items self)" by (cases "items self") auto
  define shp where "shp = arr_shape (arrs h a0)"
  have ps: "priv_shape self = Some shp" using wf in0 by (auto simp: wf_samples_def shp_def)
  have pz: "priv_size self = Some (prod_list shp)" using wf ps by (simp add: wf_samples_def)
  have st_shape: "arr_shape x = shp" if "stored self h key = Some x" for key x
  proof -
    from that obtain a where "map_of (items self) key = Some a" "x = arrs h a"
      by (auto simp: stored_def)
    then have "(key, a) \<in> set (items self)" by (simp add: map_of_SomeD)
    with wf ps \<open>x = arrs h a\<close> show ?thesis by (auto simp: wf_samples_def)
  qed
  have st_valid: "key \<in> set valid_keys" if "stored self h key = Some x" for key x
  proof -
    from that obtain a where "map_of (items self) key = Some a" by (auto simp: stored_def)
    then have "(key, a) \<in> set (items self)" by (simp add: map_of_SomeD)
    with wf show ?thesis by (force simp: wf_samples_def)
  qed
  \<comment> \<open>the restore\<close>
  define y0 where "y0 = \<lparr>items = [], t0 = t0 self, priv_size = None, priv_shape = None,
                          priv_cache = Some (nxt h)\<rparr>"
  define h0 where "h0 = h\<lparr>dicts := (dicts h)(nxt h := []), nxt := Suc (nxt h)\<rparr>"
  define ks where "ks = filter (\<lambda>k. stored self h k \<noteq> None) valid_keys"
  define kvs where "kvs = map (\<lambda>k. (k, the (stored self h k))) ks"
  have fr: "from_hdf5 f None [] h = set_all y0 kvs h0"
    by (simp add: from_hdf5_def at init_empty bind_def read_keys_eq ds y0_def h0_def kvs_def ks_def)
  have mf: "map fst kvs = ks" by (simp add: kvs_def o_def)
  have ms: "map snd kvs = map (\<lambda>k. the (stored self h k)) ks" by (simp add: kvs_def o_def)
  have dks: "distinct ks" by (simp add: ks_def distinct_valid_keys)
  have pre: "\<forall>(k, v) \<in> set kvs. k \<in> set valid_keys \<and> arr_shape v = shp"
    using st_shape by (auto simp: kvs_def ks_def)
  have sh0: "priv_shape y0 = None \<or> priv_shape y0 = Some shp" by (simp add: y0_def)
  from set_all_ok [OF pre sh0, of h0] obtain new h' where
    s: "set_all y0 kvs h0 = Inr (new, h')" and
    i: "items new = od_set_all (items y0) (map fst kvs) (nxt h0)" and
    tt: "t0 new = t0 y0" and
    p: "priv_shape new = (if kvs = [] then priv_shape y0 else Some shp)" and
    z: "priv_size new = (if kvs = [] \<or> priv_shape y0 \<noteq> None then priv_size y0
                         else Some (prod_list shp))" and
    a: "arrs h' = arrs_all (arrs h0) (map snd kvs) (nxt h0)"
    by blast
  have k0: "k0 \<in> set ks"
  proof -
    have "map_of (items self) k0 \<noteq> None" using weak_map_of_SomeI [OF in0] by auto
    then have "stored self h k0 \<noteq> None" by (simp add: stored_def)
    moreover have "k0 \<in> set valid_keys" using wf in0 by (force simp: wf_samples_def)
    ultimately show ?thesis by (simp add: ks_def)
  qed
  then have kne: "kvs \<noteq> []" by (auto simp: kvs_def)
  have same: "stored new h' key = stored self h key" for key
  proof (cases "key \<in> set ks")
    case True
    then obtain j where j: "j < length ks" "ks ! j = key" by (auto simp: in_set_conv_nth)
    have "map_of (items new) (map fst kvs ! j) = Some (nxt h0 + j)"
      unfolding i by (rule od_set_all_nth) (use dks mf j in simp_all)
    then have look: "map_of (items new) key = Some (nxt h0 + j)" using mf j by simp
    have "arrs h' (nxt h0 + j) = map snd kvs ! j"
      unfolding a by (rule arrs_all_nth) (use ms j in simp)
    also have "\<dots> = the (stored self h key)" using ms j by simp
    finally have "arrs h' (nxt h0 + j) = the (stored self h key)" .
    moreover have "stored self h key \<noteq> None" using True by (simp add: ks_def)
    ultimately show ?thesis using look by (auto simp: stored_def)
  next
    case False
    then have "map_of (items new) key = None"
      using i mf od_set_all_other [of key ks "[]" "nxt h0"] by (simp add: y0_def)
    moreover have "stored self h key = None"
    proof (rule ccontr)
      assume "stored self h key \<noteq> None"
      then obtain x where x: "stored self h key = Some x" by auto
      from st_valid [OF x] x False show False by (simp add: ks_def)
    qed
    ultimately show ?thesis by (simp add: stored_def)
  qed
  have "priv_shape new = priv_shape self" using p kne ps by simp
  moreover have "priv_size new = priv_size self" using z kne pz by (simp add: y0_def)
  moreover have "t0 new = t0 self" using tt by (simp add: y0_def)
  ultimately show ?thesis using w fr s same by auto
qed

text \<open>
  What \<open>design_matrix\<close> returns has one row per linear parameter, and \<open>tensor_vector_scalar\<close>
  rejects it: three observations and a trend of one term give a matrix of two rows and
  three columns.
\<close>

lemma design_matrix_orientation:
  "design_matrix (\<lambda>t P K e om ph. Inr (map (\<lambda>x. K) t)) [10, 0, 0, 0, 0]
     \<lparr>t_bmjd = [0, 1, 2], t_offset = 0, rv = [1, 1, 1], base_ivar = [1, 1, 1]\<rparr>
     (Some \<lparr>trends = [\<lparr>n_terms = 1\<rparr>]\<rparr>)
     = Inr (Arr2 3 [[1, 1, 1], [1, 1, 1]]) \<and>
   tensor_vector_scalar (Arr2 3 [[1, 1, 1], [1, 1, 1]]) [1, 1, 1] [1, 1, 1] = Inl ValueError"
  by (simp add: design_matrix_def bind_def np_vander_def np_T_def nrows_def col_def
      tensor_vector_scalar_def mul_row_def eval_nat_numeral upt_conv_Cons)

lemma ensure_template_frame:
  "arrs (ensure_template self c h) = arrs h \<and> nxt h \<le> nxt (ensure_template self c h) \<and>
   (\<forall>a<nxt h. elems (ensure_template self c h) a = elems h a \<and>
              orbs (ensure_template self c h) a = orbs h a) \<and>
   (\<exists>tmpl. map_of (dicts (ensure_template self c h) c) ''orbit'' = Some tmpl)"
  by (auto simp: ensure_template_def alloc_elements_def alloc_orbit_def Let_def od_set_map_of
      dest: weak_map_of_SomeI)

lemma ensure_template_present:
  "map_of (dicts h c) ''orbit'' = Some tmpl \<Longrightarrow> ensure_template self c h = h"
  by (force simp: ensure_template_def dest: map_of_SomeD)

lemma ensure_template_absent:
  "map_of (dicts h c) ''orbit'' = None \<Longrightarrow>
   map_of (dicts (ensure_template self c h) c) ''orbit'' = Some (Suc (nxt h)) \<and>
   orbit_elements (ensure_template self c h) (Suc (nxt h)) = template_elements (t0 self) \<and>
   nxt (ensure_template self c h) = Suc (Suc (nxt h))"
  by (auto simp: ensure_template_def alloc_elements_def alloc_orbit_def Let_def od_set_map_of
      orbit_elements_def map_of_eq_None_iff)

lemma ensure_template_cache_ok:
  "cache_ok h c \<Longrightarrow> cache_ok (ensure_template self c h) c"
proof (cases "map_of (dicts h c) ''orbit''")
  case None
  assume "cache_ok h c"
  from None show ?thesis
    by (auto simp: cache_ok_def ensure_template_def alloc_elements_def alloc_orbit_def Let_def
        od_set_map_of map_of_eq_None_iff)
next
  case (Some tmpl)
  assume "cache_ok h c"
  then show ?thesis using ensure_template_present [OF Some] by simp
qed

lemma get_orbit_shape:
  assumes "get_orbit self index h = Inr (orb, h')" and "priv_cache self = Some c"
    and "h1 = ensure_template self c h"
  shows "orb = Suc (nxt h1) \<and> dicts h' = dicts h1 \<and> arrs h' = arrs h1 \<and>
         nxt h' = Suc (Suc (nxt h1)) \<and>
         elems h' = (elems h1)(nxt h1 := elems h' (nxt h1)) \<and>
         orbs h' = (orbs h1)(Suc (nxt h1) := orbs h' (Suc (nxt h1))) \<and>
         elements_ref (orbs h' (Suc (nxt h1))) = nxt h1"
proof -
  from ensure_template_frame [of self c h] obtain tmpl where
    t1: "map_of (dicts h1 c) ''orbit'' = Some tmpl" unfolding assms(3) by blast
  from assms(1,2) t1 show ?thesis
    unfolding get_orbit_def
    by (auto simp: assms(3) [symmetric] Let_def copy_orbit_def alloc_orbit_def alloc_elements_def
        bind_def fun_eq_iff split: sum.splits)
qed

text \<open>
  What a call of \<open>get_orbit\<close> that returns does to the store: the orbit and its element
  object are new, and no orbit or element object that was there before is changed.
\<close>

lemma get_orbit_frame:
  assumes g: "get_orbit self index h = Inr (orb, h')" and c: "priv_cache self = Some c"
  shows "arrs h' = arrs h \<and> nxt h \<le> orb \<and> orb < nxt h' \<and>
         nxt h \<le> elements_ref (orbs h' orb) \<and> elements_ref (orbs h' orb) < nxt h' \<and>
         elements_ref (orbs h' orb) \<noteq> orb \<and>
         (\<forall>a<nxt h. elems h' a = elems h a \<and> orbs h' a = orbs h a)"
proof -
  define h1 where "h1 = ensure_template self c h"
  from ensure_template_frame [of self c h] have
    e: "arrs h1 = arrs h" "nxt h \<le> nxt h1"
       "\<forall>a<nxt h. elems h1 a = elems h a \<and> orbs h1 a = orbs h a"
    unfolding h1_def by auto
  from get_orbit_shape [OF g c h1_def] have
    s: "orb = Suc (nxt h1)" "arrs h' = arrs h1" "nxt h' = Suc (Suc (nxt h1))"
       "elems h' = (elems h1)(nxt h1 := elems h' (nxt h1))"
       "orbs h' = (orbs h1)(Suc (nxt h1) := orbs h' (Suc (nxt h1)))"
       "elements_ref (orbs h' (Suc (nxt h1))) = nxt h1"
    by auto
  have fr: "elems h' a = elems h a \<and> orbs h' a = orbs h a" if "a < nxt h" for a
  proof -
    have "a \<noteq> nxt h1" "a \<noteq> Suc (nxt h1)" using that e(2) by auto
    then have "elems h' a = elems h1 a" "orbs h' a = orbs h1 a"
      using s(4,5) by (metis fun_upd_apply)+
    then show ?thesis using e(3) that by simp
  qed
  show ?thesis using s e fr by auto
qed

lemma get_orbit_cache:
  assumes g: "get_orbit self index h = Inr (orb, h')" and c: "priv_cache self = Some c"
    and ok: "cache_ok h c"
  shows "cache_ok h' c \<and>
         (\<exists>tmpl. map_of (dicts h' c) ''orbit'' = Some tmpl \<and> tmpl < orb \<and>
            elements_ref (orbs h' tmpl) < elements_ref (orbs h' orb) \<and>
            (map_of (dicts h c) ''orbit'' = Some tmpl \<longrightarrow>
               orbs h' tmpl = orbs h tmpl \<and> orbit_elements h' tmpl = orbit_elements h tmpl) \<and>
            (map_of (dicts h c) ''orbit'' = None \<longrightarrow>
               orbit_elements h' tmpl = template_elements (t0 self)))"
proof -
  define h1 where "h1 = ensure_template self c h"
  from ensure_template_frame [of self c h] obtain tmpl where
    t1: "map_of (dicts h1 c) ''orbit'' = Some tmpl" unfolding h1_def by blast
  have ok1: "cache_ok h1 c" unfolding h1_def by (rule ensure_template_cache_ok [OF ok])
  then have tl: "tmpl < nxt h1" "elements_ref (orbs h1 tmpl) < nxt h1"
    using t1 by (auto simp: cache_ok_def)
  from get_orbit_shape [OF g c h1_def] have
    s: "orb = Suc (nxt h1)" "dicts h' = dicts h1" "nxt h' = Suc (Suc (nxt h1))"
       "elems h' = (elems h1)(nxt h1 := elems h' (nxt h1))"
       "orbs h' = (orbs h1)(Suc (nxt h1) := orbs h' (Suc (nxt h1)))"
       "elements_ref (orbs h' (Suc (nxt h1))) = nxt h1"
    by auto
  have keep: "orbs h' a = orbs h1 a" "elems h' a = elems h1 a" if "a < nxt h1" for a
  proof -
    have "a \<noteq> nxt h1" "a \<noteq> Suc (nxt h1)" using that by auto
    then show "orbs h' a = orbs h1 a" "elems h' a = elems h1 a"
      using s(4,5) by (metis fun_upd_apply)+
  qed
  have ot: "orbs h' tmpl = orbs h1 tmpl" using keep(1) [OF tl(1)] .
  have et: "orbit_elements h' tmpl = orbit_elements h1 tmpl"
    using ot keep(2) [OF tl(2)] by (simp add: orbit_elements_def)
  have ok': "cache_ok h' c"
    using t1 tl ot s(2,3) by (auto simp: cache_ok_def)
  have old: "orbs h' tmpl = orbs h tmpl \<and> orbit_elements h' tmpl = orbit_elements h tmpl"
    if "map_of (dicts h c) ''orbit'' = Some tmpl"
    using ensure_template_present [OF that, of self] ot et by (simp add: h1_def)
  have new: "orbit_elements h' tmpl = template_elements (t0 self)"
    if "map_of (dicts h c) ''orbit'' = None"
    using ensure_template_absent [OF that, of self] t1 et by (simp add: h1_def)
  have "tmpl < orb" using tl(1) s(1) by simp
  moreover have "elements_ref (orbs h' tmpl) < elements_ref (orbs h' orb)"
    using ot tl(2) s(1,6) by simp
  ultimately show ?thesis using ok' t1 s(2) old new by auto
qed

lemma get_orbit_rows:
  assumes c: "priv_cache self = Some c"
    and rows: "row self ''P'' index h = Inr P" "row self ''e'' index h = Inr e"
      "row self ''K'' index h = Inr K" "row self ''omega'' index h = Inr omega"
      "row self ''M0'' index h = Inr M0" "row self ''v0'' index h = Inr v0"
    and sma: "semi_major_axis P K e = Inr a"
  shows "\<exists>orb h'. get_orbit self index h = Inr (orb, h') \<and>
           orbit_of_sample h' orb P e a omega M0 v0"
proof -
  define h1 where "h1 = ensure_template self c h"
  from ensure_template_frame [of self c h] obtain tmpl where
    a1: "arrs h1 = arrs h" and t1: "map_of (dicts h1 c) ''orbit'' = Some tmpl"
    unfolding h1_def by blast
  define el where "el = nxt h1"
  define orb where "orb = Suc (nxt h1)"
  define h2 where
    "h2 = h1\<lparr>elems := (elems h1)(el := elems h1 (elements_ref (orbs h1 tmpl))),
               orbs := (orbs h1)(orb := (orbs h1 tmpl)\<lparr>elements_ref := el\<rparr>),
               nxt := Suc orb\<rparr>"
  define h3 where
    "h3 = h2\<lparr>elems := (elems h2)(el := (elems h2 el)\<lparr>el_P := P, el_e := e, el_a := a\<rparr>)\<rparr>"
  define h4 where
    "h4 = h3\<lparr>elems := (elems h3)(el := (elems h3 el)\<lparr>el_omega := omega, el_M0 := M0\<rparr>)\<rparr>"
  define h5 where "h5 = h4\<lparr>orbs := (orbs h4)(orb := (orbs h4 orb)\<lparr>v0_attr := Some v0\<rparr>)\<rparr>"
  have al: "copy_orbit h1 tmpl = (orb, h2)"
    by (simp add: copy_orbit_def alloc_orbit_def alloc_elements_def orb_def el_def h2_def)
  have el2: "elements_ref (orbs h2 orb) = el" by (simp add: h2_def)
  have a2: "arrs h2 = arrs h" "arrs h3 = arrs h" "arrs h4 = arrs h"
    using a1 by (simp_all add: h2_def h3_def h4_def)
  have r2: "row self ''P'' index h2 = Inr P" "row self ''e'' index h2 = Inr e"
    "row self ''K'' index h2 = Inr K"
    using rows row_arrs [OF a2(1)] by simp_all
  have r3: "row self ''omega'' index h3 = Inr omega" "row self ''M0'' index h3 = Inr M0"
    using rows row_arrs [OF a2(2)] by simp_all
  have r4: "row self ''v0'' index h4 = Inr v0"
    using rows row_arrs [OF a2(3)] by simp
  have res: "get_orbit self index h = Inr (orb, h5)"
    unfolding get_orbit_def
    by (simp add: c h1_def [symmetric] t1 al el2 r2 sma bind_def
        h3_def [symmetric] r3 h4_def [symmetric] r4 h5_def [symmetric] del: fun_upd_apply)
  have "elements_ref (orbs h5 orb) = el" "v0_attr (orbs h5 orb) = Some v0"
    by (simp_all add: h5_def h4_def h3_def h2_def)
  moreover have "elems h5 el = (elems h1 (elements_ref (orbs h1 tmpl)))
                    \<lparr>el_P := P, el_e := e, el_a := a, el_omega := omega, el_M0 := M0\<rparr>"
    by (simp add: h5_def h4_def h3_def h2_def)
  ultimately have "orbit_of_sample h5 orb P e a omega M0 v0"
    by (simp add: orbit_of_sample_def orbit_elements_def)
  with res show ?thesis by blast
qed

lemma orbit_of_sample_frame:
  assumes "orbit_of_sample h orb P e a omega M0 v0"
    and "orb < n" and "elements_ref (orbs h orb) < n"
    and "\<forall>x<n. elems h' x = elems h x \<and> orbs h' x = orbs h x"
  shows "orbit_of_sample h' orb P e a omega M0 v0"
  using assms by (simp add: orbit_of_sample_def orbit_elements_def)

lemma orbits_loop_1d:
  assumes c: "priv_cache self = Some c"
    and cols: "stored self h ''P'' = Some (NdArr [N] Ps)" "length Ps = N"
      "stored self h ''e'' = Some (NdArr [N] es)" "length es = N"
      "stored self h ''K'' = Some (NdArr [N] Ks)" "length Ks = N"
      "stored self h ''omega'' = Some (NdArr [N] os)" "length os = N"
      "stored self h ''M0'' = Some (NdArr [N] Ms)" "length Ms = N"
      "stored self h ''v0'' = Some (NdArr [N] vs)" "length vs = N"
    and idx: "\<forall>i \<in> set ixs. i < N"
  shows "\<exists>res h'. orbits_loop self ixs h = Inr (res, h') \<and> length res = length ixs \<and>
           arrs h' = arrs h \<and> nxt h \<le> nxt h' \<and>
           (\<forall>x<nxt h. elems h' x = elems h x \<and> orbs h' x = orbs h x) \<and>
           (\<forall>orb \<in> set res. nxt h \<le> orb \<and> orb < nxt h') \<and> distinct res \<and>
           (\<forall>j<length ixs.
              orbit_of_sample h' (res ! j)
                (NdArr [] [Ps ! (ixs ! j)]) (NdArr [] [es ! (ixs ! j)])
                (NdArr [] [axis_of (Ps ! (ixs ! j)) (Ks ! (ixs ! j)) (es ! (ixs ! j))])
                (NdArr [] [os ! (ixs ! j)]) (NdArr [] [Ms ! (ixs ! j)]) (NdArr [] [vs ! (ixs ! j)]))"
  using cols idx
proof (induction ixs arbitrary: h)
  case Nil
  then show ?case by simp
next
  case (Cons i ixs)
  have iN: "i < N" using Cons.prems(13) by simp
  note st = Cons.prems(1-12)
  have sm: "semi_major_axis (NdArr [] [Ps ! i]) (NdArr [] [Ks ! i]) (NdArr [] [es ! i])
              = Inr (NdArr [] [axis_of (Ps ! i) (Ks ! i) (es ! i)])"
    by (simp add: semi_major_axis_scalar axis_of_def)
  from get_orbit_rows [OF c row_1d [OF st(1,2) iN] row_1d [OF st(3,4) iN] row_1d [OF st(5,6) iN]
      row_1d [OF st(7,8) iN] row_1d [OF st(9,10) iN] row_1d [OF st(11,12) iN] sm]
  obtain orb h1 where
    g: "get_orbit self (int i) h = Inr (orb, h1)" and
    f1: "orbit_of_sample h1 orb (NdArr [] [Ps ! i]) (NdArr [] [es ! i])
           (NdArr [] [axis_of (Ps ! i) (Ks ! i) (es ! i)])
           (NdArr [] [os ! i]) (NdArr [] [Ms ! i]) (NdArr [] [vs ! i])"
    by blast
  from get_orbit_frame [OF g c] have
    a1: "arrs h1 = arrs h" and o1: "nxt h \<le> orb" "orb < nxt h1" and
    e1: "elements_ref (orbs h1 orb) < nxt h1" and
    fr1: "\<forall>x<nxt h. elems h1 x = elems h x \<and> orbs h1 x = orbs h x"
    by auto
  have st1: "stored self h1 ''P'' = Some (NdArr [N] Ps)" "length Ps = N"
      "stored self h1 ''e'' = Some (NdArr [N] es)" "length es = N"
      "stored self h1 ''K'' = Some (NdArr [N] Ks)" "length Ks = N"
      "stored self h1 ''omega'' = Some (NdArr [N] os)" "length os = N"
      "stored self h1 ''M0'' = Some (NdArr [N] Ms)" "length Ms = N"
      "stored self h1 ''v0'' = Some (NdArr [N] vs)" "length vs = N"
    using st stored_arrs [OF a1] by simp_all
  have idx': "\<forall>i \<in> set ixs. i < N" using Cons.prems(13) by simp
  from Cons.IH [OF st1 idx'] obtain rest h' where
    r: "orbits_loop self ixs h1 = Inr (rest, h')" and lr: "length rest = length ixs" and
    a': "arrs h' = arrs h1" and n': "nxt h1 \<le> nxt h'" and
    fr': "\<forall>x<nxt h1. elems h' x = elems h1 x \<and> orbs h' x = orbs h1 x" and
    rng: "\<forall>orb \<in> set rest. nxt h1 \<le> orb \<and> orb < nxt h'" and
    dr: "distinct rest" and
    fr: "\<forall>j<length ixs.
              orbit_of_sample h' (rest ! j)
                (NdArr [] [Ps ! (ixs ! j)]) (NdArr [] [es ! (ixs ! j)])
                (NdArr [] [axis_of (Ps ! (ixs ! j)) (Ks ! (ixs ! j)) (es ! (ixs ! j))])
                (NdArr [] [os ! (ixs ! j)]) (NdArr [] [Ms ! (ixs ! j)]) (NdArr [] [vs ! (ixs ! j)])"
    by blast
  have res: "orbits_loop self (i # ixs) h = Inr (orb # rest, h')"
    using g r by (simp add: bind_def)
  have first: "orbit_of_sample h' orb (NdArr [] [Ps ! i]) (NdArr [] [es ! i])
           (NdArr [] [axis_of (Ps ! i) (Ks ! i) (es ! i)])
           (NdArr [] [os ! i]) (NdArr [] [Ms ! i]) (NdArr [] [vs ! i])"
    by (rule orbit_of_sample_frame [OF f1 o1(2) e1 fr'])
  have notin: "orb \<notin> set rest" using rng o1 by fastforce
  have rng2: "\<forall>x \<in> set (orb # rest). nxt h \<le> x \<and> x < nxt h'"
    using rng o1 n' by fastforce
  have frame: "\<forall>x<nxt h. elems h' x = elems h x \<and> orbs h' x = orbs h x"
    using fr1 fr' o1 by fastforce
  have fields: "\<forall>j<length (i # ixs).
              orbit_of_sample h' ((orb # rest) ! j)
                (NdArr [] [Ps ! ((i # ixs) ! j)]) (NdArr [] [es ! ((i # ixs) ! j)])
                (NdArr [] [axis_of (Ps ! ((i # ixs) ! j)) (Ks ! ((i # ixs) ! j)) (es ! ((i # ixs) ! j))])
                (NdArr [] [os ! ((i # ixs) ! j)]) (NdArr [] [Ms ! ((i # ixs) ! j)])
                (NdArr [] [vs ! ((i # ixs) ! j)])"
  proof (intro allI impI)
    fix j assume "j < length (i # ixs)"
    then show "orbit_of_sample h' ((orb # rest) ! j)
                (NdArr [] [Ps ! ((i # ixs) ! j)]) (NdArr [] [es ! ((i # ixs) ! j)])
                (NdArr [] [axis_of (Ps ! ((i # ixs) ! j)) (Ks ! ((i # ixs) ! j)) (es ! ((i # ixs) ! j))])
                (NdArr [] [os ! ((i # ixs) ! j)]) (NdArr [] [Ms ! ((i # ixs) ! j)])
                (NdArr [] [vs ! ((i # ixs) ! j)])"
      using first fr by (cases j) simp_all
  qed
  have "nxt h \<le> nxt h'" using o1 n' by simp
  then show ?case
    using res lr a' a1 rng2 notin dr fields frame
    by (intro exI [of _ "orb # rest"] exI [of _ h']) (simp del: nth_Cons_Suc)
qed

text \<open>
  The constructor gives the container an empty cache, and \<open>get_orbit\<close> keeps the cache in
  order (lemma \<open>get_orbit_cache\<close>).
\<close>

lemma init_cache_ok:
  assumes "init t kwargs h = Inr (self, h')"
  shows "\<exists>c. priv_cache self = Some c \<and> cache_ok h' c"
  using assms
  by (auto simp: init_def bind_def alloc_dict_def cache_ok_def split: sum.splits prod.splits)

text \<open>
  Two calls of \<open>get_orbit\<close>, one after the other: the two orbits, their element objects and
  the template with its element object are six different objects, and the second call
  leaves the first orbit and the template as they were.
\<close>

lemma get_orbit_twice:
  assumes c: "priv_cache self = Some c" and ok: "cache_ok h c"
    and g1: "get_orbit self i h = Inr (o1, h1)" and g2: "get_orbit self j h1 = Inr (o2, h2)"
  shows "\<exists>tmpl. map_of (dicts h1 c) ''orbit'' = Some tmpl \<and>
           map_of (dicts h2 c) ''orbit'' = Some tmpl \<and>
           o1 \<noteq> o2 \<and> tmpl \<noteq> o1 \<and> tmpl \<noteq> o2 \<and>
           elements_ref (orbs h2 o1) \<noteq> elements_ref (orbs h2 o2) \<and>
           elements_ref (orbs h2 tmpl) \<noteq> elements_ref (orbs h2 o1) \<and>
           elements_ref (orbs h2 tmpl) \<noteq> elements_ref (orbs h2 o2) \<and>
           orbs h2 o1 = orbs h1 o1 \<and> elems h2 (elements_ref (orbs h2 o1)) = elems h1 (elements_ref (orbs h1 o1)) \<and>
           orbs h2 tmpl = orbs h1 tmpl \<and> elems h2 (elements_ref (orbs h2 tmpl)) = elems h1 (elements_ref (orbs h1 tmpl))"
proof -
  from get_orbit_frame [OF g1 c] have
    f1: "nxt h \<le> o1" "o1 < nxt h1" "elements_ref (orbs h1 o1) < nxt h1"
    by auto
  from get_orbit_cache [OF g1 c ok] obtain tmpl where
    ok1: "cache_ok h1 c" and t1: "map_of (dicts h1 c) ''orbit'' = Some tmpl" and
    lt1: "tmpl < o1" "elements_ref (orbs h1 tmpl) < elements_ref (orbs h1 o1)"
    by blast
  from ok1 t1 have tb: "tmpl < nxt h1" "elements_ref (orbs h1 tmpl) < nxt h1"
    by (auto simp: cache_ok_def)
  from get_orbit_frame [OF g2 c] have
    f2: "nxt h1 \<le> o2" "nxt h1 \<le> elements_ref (orbs h2 o2)"
      "\<forall>a<nxt h1. elems h2 a = elems h1 a \<and> orbs h2 a = orbs h1 a"
    by auto
  have "dicts h2 = dicts (ensure_template self c h1)"
    using get_orbit_shape [OF g2 c refl] by simp
  then have t2: "map_of (dicts h2 c) ''orbit'' = Some tmpl"
    using ensure_template_present [OF t1, of self] t1 by simp
  have o: "orbs h2 o1 = orbs h1 o1" "orbs h2 tmpl = orbs h1 tmpl" using f2(3) f1(2) tb(1) by auto
  have e: "elems h2 (elements_ref (orbs h1 o1)) = elems h1 (elements_ref (orbs h1 o1))"
    "elems h2 (elements_ref (orbs h1 tmpl)) = elems h1 (elements_ref (orbs h1 tmpl))"
    using f2(3) f1(3) tb(2) by auto
  show ?thesis
    using t1 t2 o e lt1 f1 f2(1,2) tb by (intro exI [of _ tmpl]) auto
qed

section \<open>The claims about likelihood.py\<close>

text \<open>
  C1, as amended. Once the design matrix \<open>A\<close> is there (one row per observation), with a
  fifth parameter entry and inverse variances and velocities of one entry per observation,
  lines 97 to 110 of \<open>marginal_ln_likelihood\<close> behave by the sign that \<open>slogdet\<close> gives the
  information matrix: sign 0 (an exactly singular matrix, as a rank-deficient design matrix
  gives) makes the solve raise \<open>LinAlgError\<close>; sign \<open>-1\<close> returns the not-a-number sentinel
  without raising; sign \<open>+1\<close> with positive inverse variances returns a finite value.
\<close>

theorem marginal_ln_likelihood_from_gate:
  assumes "ivar = get_ivar data (nonlinear_p ! 4)" and "4 < length nonlinear_p"
    and "wf2 A" and "length ivar = nrows A" and "length (rv data) = nrows A"
    and "np_linalg_slogdet (AtWA A ivar) = Inr (sign, logdet)"
  shows "(sign = 0 \<longrightarrow> marginal_ln_likelihood_from get_ivar A nonlinear_p data = Inl LinAlgError) \<and>
         (sign = - 1 \<longrightarrow> marginal_ln_likelihood_from get_ivar A nonlinear_p data = Inr (Scalar NaN)) \<and>
         (sign = 1 \<and> (\<forall>v \<in> set ivar. 0 < v) \<longrightarrow>
            (\<exists>x. marginal_ln_likelihood_from get_ivar A nonlinear_p data = Inr (Array1 [Fin x])))"
proof -
  define d where "d = lu_det (ncols A) (rows (AtWA A ivar))"
  have sg: "sign = sgn d" using assms(6) by (simp add: slogdet_AtWA d_def)
  note aux = marginal_ln_likelihood_from_gate_aux
    [where get_ivar = get_ivar and data = data, OF assms(1-5) d_def]
  have "sign = 0 \<Longrightarrow> d = 0" using sg by (simp add: sgn_zero_iff)
  moreover have "sign = - 1 \<Longrightarrow> d < 0" using sg by (simp add: sgn_if split: if_splits)
  moreover have "sign = 1 \<Longrightarrow> 0 < d" using sg by (simp add: sgn_if split: if_splits)
  ultimately show ?thesis using aux by blast
qed

theorem marginal_ln_likelihood_from_gate_witness:
  "marginal_ln_likelihood_from (\<lambda>d s. base_ivar d) (Arr2 2 [[1, 1], [1, 1]]) [10, 0, 0, 0, 0]
     \<lparr>t_bmjd = [0, 1], t_offset = 0, rv = [1, 1], base_ivar = [1, 1]\<rparr> = Inl LinAlgError \<and>
   marginal_ln_likelihood_from (\<lambda>d s. base_ivar d) (Arr2 1 [[1]]) [10, 0, 0, 0, 0]
     \<lparr>t_bmjd = [0], t_offset = 0, rv = [1], base_ivar = [- 1]\<rparr> = Inr (Scalar NaN) \<and>
   (\<exists>x. marginal_ln_likelihood_from (\<lambda>d s. base_ivar d) (Arr2 1 [[1]]) [10, 0, 0, 0, 0]
     \<lparr>t_bmjd = [0], t_offset = 0, rv = [1], base_ivar = [1]\<rparr> = Inr (Array1 [Fin x]))"
proof -
  let ?gi = "\<lambda>(d::rvdata) (s::real). base_ivar d"
  let ?p = "[10, 0, 0, 0, 0 :: real]"
  let ?d1 = "\<lparr>t_bmjd = [0, 1], t_offset = 0, rv = [1, 1], base_ivar = [1, 1]\<rparr>"
  let ?d2 = "\<lparr>t_bmjd = [0], t_offset = 0, rv = [1], base_ivar = [- 1]\<rparr>"
  let ?d3 = "\<lparr>t_bmjd = [0], t_offset = 0, rv = [1], base_ivar = [1]\<rparr>"
  have len: "4 < length ?p" by simp
  have a1: "[1, 1] = ?gi ?d1 (?p ! 4)" "wf2 (Arr2 2 [[1, 1], [1, 1]])"
    "length [1, 1 :: real] = nrows (Arr2 2 [[1, 1], [1, 1]])"
    "length (rv ?d1) = nrows (Arr2 2 [[1, 1], [1, 1]])"
    by (simp_all add: wf2_def nrows_def)
  have s1: "np_linalg_slogdet (AtWA (Arr2 2 [[1, 1], [1, 1]]) [1, 1]) = Inr (0, NInf)"
    by (simp add: np_linalg_slogdet_def square_def AtWA_def entry_def nrows_def lessThan_Suc
        eval_nat_numeral upt_conv_Cons reduce_row_def np_log_def)
  have a2: "[- 1] = ?gi ?d2 (?p ! 4)" "wf2 (Arr2 1 [[1]])"
    "length [- 1 :: real] = nrows (Arr2 1 [[1]])" "length (rv ?d2) = nrows (Arr2 1 [[1]])"
    by (simp_all add: wf2_def nrows_def)
  have s2: "np_linalg_slogdet (AtWA (Arr2 1 [[1]]) [- 1]) = Inr (- 1, Fin 0)"
    by (simp add: np_linalg_slogdet_def square_def AtWA_def entry_def nrows_def np_log_def)
  have a3: "[1] = ?gi ?d3 (?p ! 4)"
    "length [1 :: real] = nrows (Arr2 1 [[1]])" "length (rv ?d3) = nrows (Arr2 1 [[1]])"
    by (simp_all add: nrows_def)
  have s3: "np_linalg_slogdet (AtWA (Arr2 1 [[1]]) [1]) = Inr (1, Fin 0)"
    by (simp add: np_linalg_slogdet_def square_def AtWA_def entry_def nrows_def np_log_def)
  from marginal_ln_likelihood_from_gate [where get_ivar = ?gi and data = ?d1, OF a1(1) len a1(2-4) s1]
  have r1: "marginal_ln_likelihood_from ?gi (Arr2 2 [[1, 1], [1, 1]]) ?p ?d1 = Inl LinAlgError"
    by simp
  from marginal_ln_likelihood_from_gate [where get_ivar = ?gi and data = ?d2, OF a2(1) len a2(2-4) s2]
  have r2: "marginal_ln_likelihood_from ?gi (Arr2 1 [[1]]) ?p ?d2 = Inr (Scalar NaN)"
    by simp
  from marginal_ln_likelihood_from_gate [where get_ivar = ?gi and data = ?d3, OF a3(1) len a2(2) a3(2,3) s3]
  have r3: "\<exists>x. marginal_ln_likelihood_from ?gi (Arr2 1 [[1]]) ?p ?d3 = Inr (Array1 [Fin x])"
    by simp
  show ?thesis using r1 r2 r3 by blast
qed

text \<open>
  C1 as it is stated fails: with a rank-deficient design matrix (two equal columns) lines 97
  to 110 raise \<open>LinAlgError\<close> in the solve and return no sentinel; and the function itself
  raises \<open>TypeError\<close> at its first line.
\<close>

theorem marginal_ln_likelihood_rank_deficient_counterexample:
  "marginal_ln_likelihood_from (\<lambda>d s. base_ivar d) (Arr2 2 [[1, 1], [1, 1]]) [10, 0, 0, 0, 0]
     \<lparr>t_bmjd = [0, 1], t_offset = 0, rv = [1, 1], base_ivar = [1, 1]\<rparr> = Inl LinAlgError \<and>
   marginal_ln_likelihood (\<lambda>t P K e om ph. Inr (map (\<lambda>x. 1) t)) (\<lambda>d s. base_ivar d) [10, 0, 0, 0, 0]
     \<lparr>t_bmjd = [0, 1], t_offset = 0, rv = [1, 1], base_ivar = [1, 1]\<rparr> = Inl TypeError"
  by (simp add: marginal_ln_likelihood_def design_matrix_def marginal_ln_likelihood_from_def
      tensor_vector_scalar_def bind_def mul_row_def np_T_def nrows_def col_def
      dot_mm_def dot_mv_def dotp_def np_linalg_solve_def square_def reduce_row_def Let_def
      eval_nat_numeral upt_conv_Cons)

text \<open>
  C2, as amended. For a design matrix \<open>A\<close> with one row per observation and one column per
  linear parameter, inverse variances and observed values of one entry per observation, and a
  matrix \<open>A\<^sup>T\<cdot>diag(ivar)\<cdot>A\<close> in which elimination finds no zero pivot,
  \<open>tensor_vector_scalar\<close> returns that matrix as the precision matrix, coefficients \<open>p\<close> that
  solve \<open>precisionMatrix\<cdot>p = A\<^sup>T\<cdot>diag(ivar)\<cdot>y\<close>, and \<open>chi2 = \<Sum> ivar\<cdot>(A\<cdot>p - y)\<^sup>2\<close>.
\<close>

theorem tensor_vector_scalar_normal_equations:
  assumes "wf2 A" and "length ivar = nrows A" and "length y = nrows A"
    and "lu_det (ncols A) (rows (AtWA A ivar)) \<noteq> 0"
  shows "\<exists>p chi2. tensor_vector_scalar A ivar y = Inr (AtWA A ivar, p, chi2) \<and>
           length p = ncols A \<and>
           (\<forall>i<ncols A. (\<Sum>l<ncols A. entry (AtWA A ivar) i l * p ! l)
                          = (\<Sum>j<nrows A. entry A j i * ivar ! j * y ! j)) \<and>
           chi2 = (\<Sum>j<nrows A. ivar ! j * ((\<Sum>l<ncols A. entry A j l * p ! l) - y ! j) ^ 2)"
  using tvs_regular_aux [OF assms] .

theorem tensor_vector_scalar_normal_equations_witness:
  "wf2 (Arr2 2 [[1, 0], [1, 1], [1, 2]]) \<and>
   length [1, 2, 3 :: real] = nrows (Arr2 2 [[1, 0], [1, 1], [1, 2]]) \<and>
   length [1, 2, 4 :: real] = nrows (Arr2 2 [[1, 0], [1, 1], [1, 2]]) \<and>
   lu_det (ncols (Arr2 2 [[1, 0], [1, 1], [1, 2]]))
     (rows (AtWA (Arr2 2 [[1, 0], [1, 1], [1, 2]]) [1, 2, 3])) \<noteq> 0 \<and>
   (\<exists>p chi2. tensor_vector_scalar (Arr2 2 [[1, 0], [1, 1], [1, 2]]) [1, 2, 3] [1, 2, 4]
                 = Inr (AtWA (Arr2 2 [[1, 0], [1, 1], [1, 2]]) [1, 2, 3], p, chi2) \<and>
      length p = 2 \<and>
      (\<forall>i<2. (\<Sum>l<2. entry (AtWA (Arr2 2 [[1, 0], [1, 1], [1, 2]]) [1, 2, 3]) i l * p ! l)
                = (\<Sum>j<3. entry (Arr2 2 [[1, 0], [1, 1], [1, 2]]) j i * [1, 2, 3] ! j * [1, 2, 4] ! j)) \<and>
      chi2 = (\<Sum>j<3. [1, 2, 3] ! j *
                ((\<Sum>l<2. entry (Arr2 2 [[1, 0], [1, 1], [1, 2]]) j l * p ! l) - [1, 2, 4] ! j) ^ 2))"
proof -
  let ?A = "Arr2 2 [[1, 0], [1, 1], [1, 2]]"
  have h1: "wf2 ?A" by (simp add: wf2_def)
  have h2: "length [1, 2, 3 :: real] = nrows ?A" by (simp add: nrows_def)
  have h3: "length [1, 2, 4 :: real] = nrows ?A" by (simp add: nrows_def)
  have h4: "lu_det (ncols ?A) (rows (AtWA ?A [1, 2, 3])) \<noteq> 0"
    by (simp add: AtWA_def entry_def nrows_def lessThan_Suc eval_nat_numeral upt_conv_Cons
        reduce_row_def)
  have n: "nrows ?A = 3" "ncols ?A = 2" by (simp_all add: nrows_def)
  from tensor_vector_scalar_normal_equations [OF h1 h2 h3 h4]
  show ?thesis using h1 h2 h3 h4 unfolding n by blast
qed

text \<open>
  C2 as it is stated fails. A design matrix of two linear parameters by three observations
  is rejected by numpy's broadcasting; and for a square one, here two by two, the matrix
  returned is \<open>A\<^sup>T\<cdot>diag(ivar)\<cdot>A\<close>, which differs from \<open>A\<cdot>diag(ivar)\<cdot>A\<^sup>T\<close>.
\<close>

theorem tensor_vector_scalar_orientation_counterexample:
  "tensor_vector_scalar (Arr2 3 [[1, 1, 1], [0, 1, 2]]) [1, 2, 3] [1, 1, 1] = Inl ValueError \<and>
   tensor_vector_scalar (Arr2 2 [[1, 1], [0, 1]]) [1, 2] [1, 1]
     = Inr (Arr2 2 [[1, 1], [1, 3]], [0, 1], 0) \<and>
   AWAt (Arr2 2 [[1, 1], [0, 1]]) [1, 2] = Arr2 2 [[3, 2], [2, 2]]"
proof (intro conjI)
  show "tensor_vector_scalar (Arr2 3 [[1, 1, 1], [0, 1, 2]]) [1, 2, 3] [1, 1, 1] = Inl ValueError"
    by (simp add: tensor_vector_scalar_def bind_def mul_row_def np_T_def nrows_def)
  show "tensor_vector_scalar (Arr2 2 [[1, 1], [0, 1]]) [1, 2] [1, 1]
          = Inr (Arr2 2 [[1, 1], [1, 3]], [0, 1], 0)"
    by (simp add: tensor_vector_scalar_def bind_def mul_row_def np_T_def nrows_def col_def
        dot_mm_def dot_mv_def dotp_def np_linalg_solve_def square_def bop1_def reduce_row_def
        eval_nat_numeral upt_conv_Cons)
  show "AWAt (Arr2 2 [[1, 1], [0, 1]]) [1, 2] = Arr2 2 [[3, 2], [2, 2]]"
    by (simp add: AWAt_def entry_def nrows_def lessThan_Suc eval_nat_numeral upt_conv_Cons)
qed

text \<open>
  C3. The claim states what lines 97 to 110 compute; the function never gets there, because
  line 95 calls \<open>design_matrix\<close> with two of its three required arguments.
\<close>

theorem marginal_ln_likelihood_type_error:
  "marginal_ln_likelihood rv_from_elements get_ivar nonlinear_p data = Inl TypeError"
  by (simp add: marginal_ln_likelihood_def design_matrix_def bind_def)



section \<open>The claims about samples.py\<close>

text \<open>
  C4. Storing a scalar into a container whose shape is \<open>(3,)\<close> does not fail with the shape
  error of the claim: formatting its message calls \<open>len\<close> on the scalar, which raises
  \<open>TypeError\<close>.
\<close>

theorem setitem_scalar_into_shaped:
  "\<not> isl period_samples \<and>
   setitem (fst (projr period_samples)) ''e'' (NdArr [] [Fin (1 / 2)]) (snd (projr period_samples))
     = Inl TypeError"
  by (simp add: period_samples_eq) (simp add: store_simps)

text \<open>
  C5, as amended. For every well-formed container whose arrays have at least one dimension
  and every slice \<open>lo:hi\<close>, \<open>container[lo:hi]\<close> is a new container with the same keys in the
  same order; every key holds the slice of the original array, in an array object of its
  own, so that overwriting an array of the slice changes no array of the original; and the
  new container refers to the same \<open>_cache\<close> dictionary as the original.
\<close>

theorem getitem_slice_copy:
  assumes "wf_samples h self" and "priv_shape self = Some (d # rest)"
  shows "\<exists>new h'. getitem_slice self (Slice lo hi) h = Inr (new, h') \<and>
           map fst (items new) = map fst (items self) \<and>
           (\<forall>key x. stored self h key = Some x \<longrightarrow>
              (\<exists>v. np_slice x lo hi = Inr v \<and> stored new h' key = Some v)) \<and>
           (\<forall>key a' x key'. map_of (items new) key = Some a' \<longrightarrow>
              stored self (h'\<lparr>arrs := (arrs h')(a' := x)\<rparr>) key' = stored self h key') \<and>
           priv_cache new = priv_cache self"
proof -
  from getitem_slice_aux [OF assms, of lo hi] obtain new h' where
    res: "getitem_slice self (Slice lo hi) h = Inr (new, h')" and
    keys: "map fst (items new) = map fst (items self)" and
    each: "\<forall>key a. map_of (items self) key = Some a \<longrightarrow>
              (\<exists>a'. map_of (items new) key = Some a' \<and> nxt h \<le> a' \<and>
                    np_slice (arrs h a) lo hi = Inr (arrs h' a'))" and
    below: "\<forall>a<nxt h. arrs h' a = arrs h a" and
    cache: "priv_cache new = priv_cache self"
    by blast
  have old: "b < nxt h" if "map_of (items self) key' = Some b" for key' b
    using assms(1) map_of_SomeD [OF that] unfolding wf_samples_def by force
  have vals: "\<exists>v. np_slice x lo hi = Inr v \<and> stored new h' key = Some v"
    if "stored self h key = Some x" for key x
    using that each by (fastforce simp: stored_def)
  have fresh: "nxt h \<le> a'" if m: "map_of (items new) key = Some a'" for key a'
  proof -
    have "key \<in> set (map fst (items new))" using map_of_SomeD [OF m] by force
    then have "key \<in> fst ` set (items self)" using keys by simp
    then obtain a where "map_of (items self) key = Some a"
      by (metis domD dom_map_of_conv_image_fst)
    with each m show ?thesis by fastforce
  qed
  have frame: "stored self (h'\<lparr>arrs := (arrs h')(a' := x)\<rparr>) key' = stored self h key'"
    if m: "map_of (items new) key = Some a'" for key a' x key'
  proof (cases "map_of (items self) key'")
    case None
    then show ?thesis by (simp add: stored_def)
  next
    case (Some b)
    from old [OF Some] fresh [OF m] have "b \<noteq> a'" "b < nxt h" by auto
    then show ?thesis using Some below by (simp add: stored_def)
  qed
  show ?thesis using res keys vals frame cache by blast
qed

theorem getitem_slice_copy_witness:
  "\<exists>new h'. getitem_slice (fst (projr period_samples)) (Slice (Some 0) (Some 2))
               (snd (projr period_samples)) = Inr (new, h') \<and>
     map fst (items new) = [''P''] \<and>
     stored new h' ''P'' = Some (NdArr [2] [Fin 1, Fin 2]) \<and>
     priv_cache new = Some 1"
proof -
  let ?c = "fst (projr period_samples)" and ?h = "snd (projr period_samples)"
  have wf: "wf_samples ?h ?c"
    by (simp add: period_samples_eq wf_samples_def valid_keys_def)
  have sh: "priv_shape ?c = Some (3 # [])" by (simp add: period_samples_eq)
  have st: "stored ?c ?h ''P'' = Some (NdArr [3] [Fin 1, Fin 2, Fin 3])"
    by (simp add: period_samples_eq stored_def)
  have sl: "np_slice (NdArr [3] [Fin 1, Fin 2, Fin 3]) (Some 0) (Some 2)
              = Inr (NdArr [2] [Fin 1, Fin 2])"
    by (simp add: np_slice_def slice_bounds_def clip_def)
  have ks: "map fst (items ?c) = [''P'']" "priv_cache ?c = Some 1"
    by (simp_all add: period_samples_eq)
  from getitem_slice_copy [OF wf sh, of "Some 0" "Some 2"] st sl ks
  show ?thesis by fastforce
qed

text \<open>
  C5 as it is stated fails. The slice of a container refers to the \<open>_cache\<close> dictionary of
  its parent; and a container of scalars, such as \<open>mean\<close> returns, cannot be sliced.
\<close>

theorem getitem_slice_shares_cache_counterexample:
  "\<not> isl period_samples \<and> \<not> isl period_slice \<and>
   priv_cache (fst (projr period_slice)) = priv_cache (fst (projr period_samples)) \<and>
   \<not> isl mean_samples \<and> mean_slice = Inl TypeError"
proof (intro conjI)
  show "\<not> isl period_samples" by (simp add: period_samples_eq)
  show "\<not> isl period_slice"
    by (simp add: period_slice_def period_samples_eq bind_def)
       (simp add: slice_simps store_simps eval_nat_numeral)
  show "priv_cache (fst (projr period_slice)) = priv_cache (fst (projr period_samples))"
    by (simp add: period_slice_def period_samples_eq bind_def)
       (simp add: slice_simps store_simps eval_nat_numeral)
  show "\<not> isl mean_samples" by (simp add: mean_samples_eq)
  show "mean_slice = Inl TypeError"
    by (simp add: mean_slice_def mean_samples_eq bind_def)
       (simp add: slice_simps store_simps eval_nat_numeral)
qed

text \<open>
  C6. A container whose reference epoch is a number, which the constructor documents as
  admissible, cannot be persisted: \<open>to_hdf5\<close> raises \<open>AttributeError\<close>.
\<close>

theorem to_hdf5_numeric_epoch:
  "\<not> isl numeric_epoch_samples \<and>
   to_hdf5 (fst (projr numeric_epoch_samples)) (snd (projr numeric_epoch_samples)) empty_file
     = Inl AttributeError"
  by (simp add: numeric_epoch_samples_eq) (simp add: to_hdf5_def)

text \<open>
  C7. \<open>median\<close> returns what \<open>mean\<close> returns, for every container and store: both build a
  new container from \<open>np.mean\<close> of each stored array.
\<close>

theorem median_is_mean:
  "median self h = mean self h \<and>
   median self h = init None (map (\<lambda>(k, a). (k, np_mean (arrs h a))) (items self)) h"
  by (simp add: median_def mean_def apply_func_def)

text \<open>
  C8, as amended. For every container whose arrays are one-dimensional of length \<open>N\<close>, with
  the keys \<open>P\<close>, \<open>e\<close>, \<open>omega\<close>, \<open>M0\<close>, \<open>K\<close>, \<open>v0\<close> stored, and every \<open>k < N\<close> whose period,
  amplitude and eccentricity are finite with \<open>e\<^sup>2 \<le> 1\<close>, \<open>get_orbit(k)\<close> returns an orbit
  whose semi-major axis is \<open>P[k]\<cdot>K[k]/(2\<pi>)\<cdot>sqrt(1 - e[k]\<^sup>2)\<close>; and \<open>orbits\<close> yields \<open>N\<close>
  different orbit objects, the \<open>i\<close>-th of which has, after the last one is yielded, the
  elements of sample \<open>i\<close>.
\<close>

theorem get_orbit_semi_major_axis:
  assumes "priv_cache self = Some c" and "priv_size self = Some N"
    and "stored self h ''P'' = Some (NdArr [N] Ps)" and "length Ps = N"
    and "stored self h ''e'' = Some (NdArr [N] es)" and "length es = N"
    and "stored self h ''K'' = Some (NdArr [N] Ks)" and "length Ks = N"
    and "stored self h ''omega'' = Some (NdArr [N] os)" and "length os = N"
    and "stored self h ''M0'' = Some (NdArr [N] Ms)" and "length Ms = N"
    and "stored self h ''v0'' = Some (NdArr [N] vs)" and "length vs = N"
    and "k < N" and "Ps ! k = Fin p" and "Ks ! k = Fin q" and "es ! k = Fin ecc" and "ecc\<^sup>2 \<le> 1"
  shows "(\<exists>orb h'. get_orbit self (int k) h = Inr (orb, h') \<and>
            el_a (orbit_elements h' orb) = scalar (p * q / (2 * pi) * sqrt (1 - ecc\<^sup>2))) \<and>
         (\<exists>res h'. orbits self h = Inr (res, h') \<and> length res = N \<and> distinct res \<and>
            (\<forall>i<N. orbit_of_sample h' (res ! i)
                      (NdArr [] [Ps ! i]) (NdArr [] [es ! i])
                      (NdArr [] [axis_of (Ps ! i) (Ks ! i) (es ! i)])
                      (NdArr [] [os ! i]) (NdArr [] [Ms ! i]) (NdArr [] [vs ! i])))"
proof (intro conjI)
  from get_orbit_rows [OF assms(1) row_1d [OF assms(3,4,15)] row_1d [OF assms(5,6,15)]
      row_1d [OF assms(7,8,15)] row_1d [OF assms(9,10,15)] row_1d [OF assms(11,12,15)]
      row_1d [OF assms(13,14,15)] semi_major_axis_scalar]
  show "\<exists>orb h'. get_orbit self (int k) h = Inr (orb, h') \<and>
            el_a (orbit_elements h' orb) = scalar (p * q / (2 * pi) * sqrt (1 - ecc\<^sup>2))"
    using assms(16-18) semi_major_axis_finite [OF assms(19), of p q]
    by (auto simp: scalar_def orbit_of_sample_def)
next
  have idx: "\<forall>i \<in> set [0..<N]. i < N" by simp
  from orbits_loop_1d [OF assms(1) assms(3-14) idx] obtain res h' where
    r: "orbits_loop self [0..<N] h = Inr (res, h')" "length res = length [0..<N]"
       "distinct res" and
    f: "\<forall>j<length [0..<N].
          orbit_of_sample h' (res ! j)
            (NdArr [] [Ps ! ([0..<N] ! j)]) (NdArr [] [es ! ([0..<N] ! j)])
            (NdArr [] [axis_of (Ps ! ([0..<N] ! j)) (Ks ! ([0..<N] ! j)) (es ! ([0..<N] ! j))])
            (NdArr [] [os ! ([0..<N] ! j)]) (NdArr [] [Ms ! ([0..<N] ! j)])
            (NdArr [] [vs ! ([0..<N] ! j)])"
    by blast
  have "orbits self h = Inr (res, h')"
    using r(1) assms(2) by (simp add: orbits_def len_def size_samples_def bind_def)
  moreover have "length res = N" using r(2) by simp
  ultimately show "\<exists>res h'. orbits self h = Inr (res, h') \<and> length res = N \<and> distinct res \<and>
            (\<forall>i<N. orbit_of_sample h' (res ! i)
                      (NdArr [] [Ps ! i]) (NdArr [] [es ! i])
                      (NdArr [] [axis_of (Ps ! i) (Ks ! i) (es ! i)])
                      (NdArr [] [os ! i]) (NdArr [] [Ms ! i]) (NdArr [] [vs ! i]))"
    using r(3) f by (intro exI [of _ res] exI [of _ h']) simp
qed

theorem get_orbit_semi_major_axis_witness:
  "(\<exists>orb h'. get_orbit (fst (projr two_samples)) 1 (snd (projr two_samples)) = Inr (orb, h') \<and>
      el_a (orbit_elements h' orb) = scalar (2 * 4 / (2 * pi) * sqrt (1 - 0\<^sup>2))) \<and>
   (\<exists>res h'. orbits (fst (projr two_samples)) (snd (projr two_samples)) = Inr (res, h') \<and>
      length res = 2 \<and> distinct res \<and>
      orbit_of_sample h' (res ! 0) (NdArr [] [Fin 1]) (NdArr [] [Fin 0])
        (NdArr [] [axis_of (Fin 1) (Fin 3) (Fin 0)]) (NdArr [] [Fin 0]) (NdArr [] [Fin 0])
        (NdArr [] [Fin 7]) \<and>
      orbit_of_sample h' (res ! 1) (NdArr [] [Fin 2]) (NdArr [] [Fin 0])
        (NdArr [] [axis_of (Fin 2) (Fin 4) (Fin 0)]) (NdArr [] [Fin 0]) (NdArr [] [Fin 0])
        (NdArr [] [Fin 8]))"
proof -
  let ?c = "fst (projr two_samples)" and ?h = "snd (projr two_samples)"
  have c: "priv_cache ?c = Some 6" "priv_size ?c = Some 2" by (simp_all add: two_samples_eq)
  have st: "stored ?c ?h ''P'' = Some (NdArr [2] [Fin 1, Fin 2])"
    "stored ?c ?h ''e'' = Some (NdArr [2] [Fin 0, Fin 0])"
    "stored ?c ?h ''K'' = Some (NdArr [2] [Fin 3, Fin 4])"
    "stored ?c ?h ''omega'' = Some (NdArr [2] [Fin 0, Fin 0])"
    "stored ?c ?h ''M0'' = Some (NdArr [2] [Fin 0, Fin 0])"
    "stored ?c ?h ''v0'' = Some (NdArr [2] [Fin 7, Fin 8])"
    by (simp_all add: two_samples_eq stored_def)
  have l: "length [Fin 1, Fin 2] = (2::nat)" "length [Fin 0, Fin 0] = (2::nat)"
    "length [Fin 3, Fin 4] = (2::nat)" "length [Fin 7, Fin 8] = (2::nat)"
    by simp_all
  have k: "(1::nat) < 2" "[Fin 1, Fin 2] ! 1 = Fin 2" "[Fin 3, Fin 4] ! 1 = Fin 4"
    "[Fin 0, Fin 0] ! 1 = Fin 0" "(0::real)\<^sup>2 \<le> 1"
    by simp_all
  from get_orbit_semi_major_axis [OF c st(1) l(1) st(2) l(2) st(3) l(3) st(4) l(2) st(5) l(2)
      st(6) l(4) k]
  obtain orb h1 res h' where
    g: "get_orbit ?c (int 1) ?h = Inr (orb, h1)"
       "el_a (orbit_elements h1 orb) = scalar (2 * 4 / (2 * pi) * sqrt (1 - 0\<^sup>2))" and
    r: "orbits ?c ?h = Inr (res, h')" "length res = 2" "distinct res" and
    a: "\<forall>i<2. orbit_of_sample h' (res ! i)
                (NdArr [] [[Fin 1, Fin 2] ! i]) (NdArr [] [[Fin 0, Fin 0] ! i])
                (NdArr [] [axis_of ([Fin 1, Fin 2] ! i) ([Fin 3, Fin 4] ! i) ([Fin 0, Fin 0] ! i)])
                (NdArr [] [[Fin 0, Fin 0] ! i]) (NdArr [] [[Fin 0, Fin 0] ! i])
                (NdArr [] [[Fin 7, Fin 8] ! i])"
    by blast
  from a have a0: "orbit_of_sample h' (res ! 0) (NdArr [] [Fin 1]) (NdArr [] [Fin 0])
        (NdArr [] [axis_of (Fin 1) (Fin 3) (Fin 0)]) (NdArr [] [Fin 0]) (NdArr [] [Fin 0])
        (NdArr [] [Fin 7])"
    by (auto dest: spec [of _ 0])
  from a have a1: "orbit_of_sample h' (res ! 1) (NdArr [] [Fin 2]) (NdArr [] [Fin 0])
        (NdArr [] [axis_of (Fin 2) (Fin 4) (Fin 0)]) (NdArr [] [Fin 0]) (NdArr [] [Fin 0])
        (NdArr [] [Fin 8])"
    by (auto dest: spec [of _ 1])
  from g r a0 a1 show ?thesis by auto
qed

text \<open>
  C8 as it is stated fails. The container that \<open>mean\<close> returns has the six keys and size 1,
  and \<open>get_orbit(0)\<close> raises \<open>TypeError\<close> on it, because a scalar cannot be indexed.
\<close>

theorem get_orbit_scalar_counterexample:
  "\<not> isl mean_samples \<and> size_samples (fst (projr mean_samples)) = Inr 1 \<and>
   map fst (items (fst (projr mean_samples))) = [''P'', ''e'', ''K'', ''omega'', ''M0'', ''v0''] \<and>
   mean_orbit = Inl TypeError"
proof (intro conjI)
  show "\<not> isl mean_samples" by (simp add: mean_samples_eq)
  show "size_samples (fst (projr mean_samples)) = Inr 1"
    by (simp add: mean_samples_eq size_samples_def)
  show "map fst (items (fst (projr mean_samples))) = [''P'', ''e'', ''K'', ''omega'', ''M0'', ''v0'']"
    by (simp add: mean_samples_eq)
  show "mean_orbit = Inl TypeError"
    by (simp add: mean_orbit_def mean_samples_eq bind_def)
       (simp add: orbit_simps store_simps eval_nat_numeral)
qed

text \<open>
  C9. Two calls of \<open>get_orbit\<close>, one after the other, return two different orbit objects with
  two different element objects, both different from the cached template and its element
  object. The second call leaves the first orbit as the first call returned it, and the
  template as it was built. Overwriting the element fields and \<open>_v0\<close> of either orbit changes
  neither the other orbit nor the template.
\<close>

theorem get_orbit_independent:
  assumes "priv_cache self = Some c" and "cache_ok h c"
    and "get_orbit self i h = Inr (o1, h1)" and "get_orbit self j h1 = Inr (o2, h2)"
  shows "o1 \<noteq> o2 \<and> elements_ref (orbs h2 o1) \<noteq> elements_ref (orbs h2 o2) \<and>
         orbs h2 o1 = orbs h1 o1 \<and> orbit_elements h2 o1 = orbit_elements h1 o1 \<and>
         (\<exists>tmpl. map_of (dicts h2 c) ''orbit'' = Some tmpl \<and> tmpl \<noteq> o1 \<and> tmpl \<noteq> o2 \<and>
            elements_ref (orbs h2 tmpl) \<noteq> elements_ref (orbs h2 o1) \<and>
            elements_ref (orbs h2 tmpl) \<noteq> elements_ref (orbs h2 o2) \<and>
            orbit_elements h2 tmpl =
              (case map_of (dicts h c) ''orbit'' of
                 None \<Rightarrow> template_elements (t0 self) | Some t \<Rightarrow> orbit_elements h t) \<and>
            (\<forall>v w. orbit_elements (overwrite_orbit h2 o2 v w) o2 = v \<and>
                   orbs (overwrite_orbit h2 o2 v w) o1 = orbs h1 o1 \<and>
                   orbit_elements (overwrite_orbit h2 o2 v w) o1 = orbit_elements h1 o1 \<and>
                   orbs (overwrite_orbit h2 o2 v w) tmpl = orbs h2 tmpl \<and>
                   orbit_elements (overwrite_orbit h2 o2 v w) tmpl = orbit_elements h2 tmpl \<and>
                   orbit_elements (overwrite_orbit h2 o1 v w) o1 = v \<and>
                   orbs (overwrite_orbit h2 o1 v w) o2 = orbs h2 o2 \<and>
                   orbit_elements (overwrite_orbit h2 o1 v w) o2 = orbit_elements h2 o2 \<and>
                   orbs (overwrite_orbit h2 o1 v w) tmpl = orbs h2 tmpl \<and>
                   orbit_elements (overwrite_orbit h2 o1 v w) tmpl = orbit_elements h2 tmpl))"
proof -
  from get_orbit_twice [OF assms] obtain tmpl where
    t: "map_of (dicts h1 c) ''orbit'' = Some tmpl" "map_of (dicts h2 c) ''orbit'' = Some tmpl" and
    d: "o1 \<noteq> o2" "tmpl \<noteq> o1" "tmpl \<noteq> o2"
       "elements_ref (orbs h2 o1) \<noteq> elements_ref (orbs h2 o2)"
       "elements_ref (orbs h2 tmpl) \<noteq> elements_ref (orbs h2 o1)"
       "elements_ref (orbs h2 tmpl) \<noteq> elements_ref (orbs h2 o2)" and
    s: "orbs h2 o1 = orbs h1 o1"
       "elems h2 (elements_ref (orbs h2 o1)) = elems h1 (elements_ref (orbs h1 o1))"
       "orbs h2 tmpl = orbs h1 tmpl"
       "elems h2 (elements_ref (orbs h2 tmpl)) = elems h1 (elements_ref (orbs h1 tmpl))"
    by blast
  have e21: "orbit_elements h2 tmpl = orbit_elements h1 tmpl" "orbit_elements h2 o1 = orbit_elements h1 o1"
    using s by (simp_all add: orbit_elements_def)
  have d1: "dicts h1 = dicts (ensure_template self c h)"
    using get_orbit_shape [OF assms(3) assms(1) refl] by simp
  have tm: "orbit_elements h1 tmpl =
              (case map_of (dicts h c) ''orbit'' of
                 None \<Rightarrow> template_elements (t0 self) | Some t \<Rightarrow> orbit_elements h t)"
  proof (cases "map_of (dicts h c) ''orbit''")
    case None
    with get_orbit_cache [OF assms(3) assms(1) assms(2)] t(1) show ?thesis by auto
  next
    case (Some t')
    from d1 ensure_template_present [OF Some, of self] Some t(1) have "t' = tmpl" by simp
    with get_orbit_cache [OF assms(3) assms(1) assms(2)] t(1) Some show ?thesis by auto
  qed
  have ow: "\<forall>v w. orbit_elements (overwrite_orbit h2 o2 v w) o2 = v \<and>
                   orbs (overwrite_orbit h2 o2 v w) o1 = orbs h1 o1 \<and>
                   orbit_elements (overwrite_orbit h2 o2 v w) o1 = orbit_elements h1 o1 \<and>
                   orbs (overwrite_orbit h2 o2 v w) tmpl = orbs h2 tmpl \<and>
                   orbit_elements (overwrite_orbit h2 o2 v w) tmpl = orbit_elements h2 tmpl \<and>
                   orbit_elements (overwrite_orbit h2 o1 v w) o1 = v \<and>
                   orbs (overwrite_orbit h2 o1 v w) o2 = orbs h2 o2 \<and>
                   orbit_elements (overwrite_orbit h2 o1 v w) o2 = orbit_elements h2 o2 \<and>
                   orbs (overwrite_orbit h2 o1 v w) tmpl = orbs h2 tmpl \<and>
                   orbit_elements (overwrite_orbit h2 o1 v w) tmpl = orbit_elements h2 tmpl"
    using d s by (simp add: overwrite_orbit_def orbit_elements_def)
  show ?thesis
    using t(2) d e21 s(1) tm ow by (intro conjI exI [of _ tmpl]) simp_all
qed

theorem get_orbit_independent_witness:
  "\<not> isl first_orbit \<and> \<not> isl second_orbit \<and>
   fst (projr first_orbit) \<noteq> fst (projr second_orbit) \<and>
   elements_ref (orbs (snd (projr second_orbit)) (fst (projr first_orbit)))
     \<noteq> elements_ref (orbs (snd (projr second_orbit)) (fst (projr second_orbit))) \<and>
   el_P (orbit_elements (snd (projr first_orbit)) (fst (projr first_orbit))) = NdArr [] [Fin 1] \<and>
   orbit_elements (snd (projr second_orbit)) (fst (projr first_orbit))
     = orbit_elements (snd (projr first_orbit)) (fst (projr first_orbit)) \<and>
   el_P (orbit_elements (snd (projr second_orbit)) (fst (projr second_orbit))) = NdArr [] [Fin 2] \<and>
   orbit_elements (snd (projr second_orbit))
       (the (map_of (dicts (snd (projr second_orbit))
                      (the (priv_cache (fst (projr two_samples))))) ''orbit''))
     = template_elements None \<and>
   orbit_elements
       (overwrite_orbit (snd (projr second_orbit)) (fst (projr second_orbit))
          (template_elements (Some (Numeric 5))) None)
       (fst (projr first_orbit))
     = orbit_elements (snd (projr first_orbit)) (fst (projr first_orbit))"
proof -
  let ?c = "fst (projr two_samples)" and ?h = "snd (projr two_samples)"
  let ?o1 = "fst (projr first_orbit)" and ?h1 = "snd (projr first_orbit)"
  let ?o2 = "fst (projr second_orbit)" and ?h2 = "snd (projr second_orbit)"
  have c: "priv_cache ?c = Some 6" by (simp add: two_samples_eq)
  have ok: "cache_ok ?h 6" by (simp add: two_samples_eq cache_ok_def empty_heap_def)
  have n1: "\<not> isl first_orbit"
    by (simp add: first_orbit_def two_samples_eq bind_def)
       (simp add: orbit_simps store_simps eval_nat_numeral)
  have n2: "\<not> isl second_orbit"
    by (simp add: second_orbit_def two_samples_eq bind_def)
       (simp add: orbit_simps store_simps eval_nat_numeral)
  have f: "first_orbit = get_orbit ?c 0 ?h"
    by (simp add: first_orbit_def two_samples_eq bind_def)
  have g1: "get_orbit ?c 0 ?h = Inr (?o1, ?h1)" using n1 f by (cases first_orbit) auto
  have "second_orbit = get_orbit ?c 1 ?h1"
    using g1 by (simp add: second_orbit_def two_samples_eq bind_def case_prod_beta)
  then have g2: "get_orbit ?c 1 ?h1 = Inr (?o2, ?h2)" using n2 by (cases second_orbit) auto
  have p1: "el_P (orbit_elements ?h1 ?o1) = NdArr [] [Fin 1]"
    by (simp add: first_orbit_def two_samples_eq bind_def)
       (simp add: orbit_simps store_simps eval_nat_numeral)
  have p2: "el_P (orbit_elements ?h2 ?o2) = NdArr [] [Fin 2]"
    by (simp add: second_orbit_def two_samples_eq bind_def)
       (simp add: orbit_simps store_simps eval_nat_numeral)
  have none: "map_of (dicts ?h 6) ''orbit'' = None"
    by (simp add: two_samples_eq empty_heap_def)
  have t0: "t0 ?c = None" by (simp add: two_samples_eq)
  from get_orbit_independent [OF c ok g1 g2] n1 n2 p1 p2 none t0 c
  show ?thesis by auto
qed

end
